theory Spec2Isabelle
  imports Complex_Main "HOL-Library.Word"
begin

unbundle bit_operations_syntax

section \<open>Bytes, the safe-character table and the level characters\<close>

text \<open>
  A Go \<^verbatim>\<open>[]byte\<close> and a Go \<^verbatim>\<open>string\<close> are both modelled as a list of
  8-bit characters. \<open>byte c\<close> is the numeric value of a byte.
\<close>

definition byte :: "char \<Rightarrow> nat" where
  "byte c = of_char c"

text \<open>
  \<^verbatim>\<open>safeChars[i] = (c >= 'a' && c <= 'z') || (c >= 'A' && c <= 'Z') ||
     (c >= '0' && c <= '9') || c == '-' || c == '_' || c == '.' || c == ',' || c == ' '\<close>
  The table is filled by \<^verbatim>\<open>main\<close> before the listener starts.
\<close>

definition safeChars :: "char \<Rightarrow> bool" where
  "safeChars c =
     ((byte c \<ge> byte CHR ''a'' \<and> byte c \<le> byte CHR ''z'') \<or>
      (byte c \<ge> byte CHR ''A'' \<and> byte c \<le> byte CHR ''Z'') \<or>
      (byte c \<ge> byte CHR ''0'' \<and> byte c \<le> byte CHR ''9'') \<or>
      c = CHR ''-'' \<or> c = CHR ''_'' \<or> c = CHR ''.'' \<or> c = CHR '','' \<or> c = CHR '' '')"

text \<open>The effect of the sanitizing loop of \<^verbatim>\<open>parseLine\<close> on one byte.\<close>

definition sanitize :: "char \<Rightarrow> char" where
  "sanitize c = (if safeChars c then c else CHR ''_'')"

text \<open>
  The loop \<^verbatim>\<open>for i, c := range parts[0] { if !safeChars[c] { parts[0][i] = '_' } }\<close>.
  \<^verbatim>\<open>parts[0]\<close> is a sub-slice of the line buffer (neither \<^verbatim>\<open>bytes.Cut\<close> nor
  \<^verbatim>\<open>bytes.Split\<close> copies), so the assignment writes into the buffer itself: position
  \<open>i\<close> of the slice is position \<open>off + i\<close> of the buffer.
\<close>

definition sanitize_at :: "string \<Rightarrow> nat \<Rightarrow> nat \<Rightarrow> string" where
  "sanitize_at buf off n =
     foldl (\<lambda>b i. if safeChars (b ! (off + i)) then b else b[off + i := CHR ''_'']) buf [0..<n]"

section \<open>Decimal numerals\<close>

definition isDigit :: "char \<Rightarrow> bool" where
  "isDigit c = (byte CHR ''0'' \<le> byte c \<and> byte c \<le> byte CHR ''9'')"

definition digitVal :: "char \<Rightarrow> nat" where
  "digitVal c = byte c - byte CHR ''0''"

definition digitChar :: "nat \<Rightarrow> char" where
  "digitChar d = ''0123456789'' ! d"

text \<open>The decimal numeral of a number, as \<^verbatim>\<open>%d\<close> prints an unsigned value.\<close>

fun dec :: "nat \<Rightarrow> string" where
  "dec n = (if n < 10 then [digitChar n] else dec (n div 10) @ [digitChar (n mod 10)])"

declare dec.simps [simp del]

text \<open>
  \<^verbatim>\<open>switch li.Level { case 0: "E" case 1: "W" case 2: "I" case 3: "D" case 4: "V"
     default: fmt.Sprintf("%d", li.Level%10) }\<close>
\<close>

definition levelChar :: "32 word \<Rightarrow> string" where
  "levelChar l =
     (if l = 0 then ''E''
      else if l = 1 then ''W''
      else if l = 2 then ''I''
      else if l = 3 then ''D''
      else if l = 4 then ''V''
      else dec (unat (l mod 10)))"

section \<open>Library functions of the Go runtime used by the parser\<close>

text \<open>
  \<^verbatim>\<open>strconv.ParseUint(s, 10, bitSize)\<close> and \<^verbatim>\<open>strconv.ParseFloat(s, 64)\<close> belong to the
  Go standard library, not to this repository. They are modelled after the library's
  implementation and documentation; a failure is \<open>Inl\<close> of the library's error kind.
\<close>

datatype num_error = ErrSyntax | ErrRange

definition maxUint64 :: nat where
  "maxUint64 = 2 ^ 64 - 1"

text \<open>
  The digit loop of \<^verbatim>\<open>ParseUint\<close> for base 10. The accumulator is a \<^verbatim>\<open>uint64\<close>: it is
  a natural number here, with the wrap-around of the multiplication and of the addition
  written out. With an explicit base 10 an underscore, a sign and a letter are syntax
  errors.
\<close>

fun parseUint_loop :: "nat \<Rightarrow> nat \<Rightarrow> string \<Rightarrow> num_error + nat" where
  "parseUint_loop maxVal n [] = Inr n"
| "parseUint_loop maxVal n (c # cs) =
     (if \<not> isDigit c then Inl ErrSyntax
      else if n \<ge> maxUint64 div 10 + 1 then Inl ErrRange
      else
        let n10 = (n * 10) mod 2 ^ 64;
            n1 = (n10 + digitVal c) mod 2 ^ 64
        in if n1 < n10 \<or> n1 > maxVal then Inl ErrRange
           else parseUint_loop maxVal n1 cs)"

definition ParseUint :: "string \<Rightarrow> nat \<Rightarrow> num_error + nat" where
  "ParseUint s bitSize =
     (if s = [] then Inl ErrSyntax else parseUint_loop (2 ^ bitSize - 1) 0 s)"

subsection \<open>Binary64 values\<close>

text \<open>
  A \<^verbatim>\<open>float64\<close>: \<open>Finite neg m e\<close> is \<open>(-1)^neg * m * 2^e\<close> (so the two zeros are
  distinct), \<open>Infinite neg\<close> an infinity and \<open>NaN\<close> a not-a-number.
\<close>

datatype f64 = Finite bool nat int | Infinite bool | NaN

text \<open>\<open>floorLog2 num den\<close> is the \<open>e\<close> with \<open>2^e \<le> num/den < 2^(e+1)\<close>, for positive arguments.\<close>

fun bitLength :: "nat \<Rightarrow> nat" where
  "bitLength n = (if n = 0 then 0 else Suc (bitLength (n div 2)))"

declare bitLength.simps [simp del]

definition floorLog2 :: "nat \<Rightarrow> nat \<Rightarrow> int" where
  "floorLog2 num den =
     (let e0 = int (bitLength num) - int (bitLength den);
          ge = (if e0 \<ge> 0 then num \<ge> den * 2 ^ nat e0 else num * 2 ^ nat (- e0) \<ge> den)
      in if ge then e0 else e0 - 1)"

text \<open>
  Rounding of the positive rational \<open>num/den\<close> to the nearest binary64, ties to even
  (IEEE 754): 53 bits of precision, exponents of the unit in the last place from
  \<open>-1074\<close> (subnormals) to \<open>971\<close>. The second component tells that the result overflowed.
\<close>

definition roundToF64 :: "bool \<Rightarrow> nat \<Rightarrow> nat \<Rightarrow> f64 \<times> bool" where
  "roundToF64 neg num den =
     (if num = 0 then (Finite neg 0 0, False)
      else
        let e = floorLog2 num den;
            s = max e (- 1022) - 52;
            p = (if s \<ge> 0 then num else num * 2 ^ nat (- s));
            q = (if s \<ge> 0 then den * 2 ^ nat s else den);
            m0 = p div q;
            r = p mod q;
            m = (if 2 * r < q then m0
                 else if 2 * r > q then m0 + 1
                 else if even m0 then m0 else m0 + 1)
        in if s > 971 \<or> (s = 971 \<and> m \<ge> 2 ^ 53) then (Infinite neg, True)
           else (Finite neg m s, False))"

text \<open>The exact value \<open>m * 2^e\<close> as a fraction, rounded.\<close>

definition roundDyadic :: "bool \<Rightarrow> nat \<Rightarrow> int \<Rightarrow> f64" where
  "roundDyadic neg m e =
     fst (if e \<ge> 0 then roundToF64 neg (m * 2 ^ nat e) 1 else roundToF64 neg m (2 ^ nat (- e)))"

text \<open>IEEE 754 multiplication, as Go's \<^verbatim>\<open>*\<close> on \<^verbatim>\<open>float64\<close>.\<close>

fun f64_mul :: "f64 \<Rightarrow> f64 \<Rightarrow> f64" where
  "f64_mul NaN _ = NaN"
| "f64_mul _ NaN = NaN"
| "f64_mul (Infinite s) (Infinite t) = Infinite (s \<noteq> t)"
| "f64_mul (Infinite s) (Finite t m e) = (if m = 0 then NaN else Infinite (s \<noteq> t))"
| "f64_mul (Finite s m e) (Infinite t) = (if m = 0 then NaN else Infinite (s \<noteq> t))"
| "f64_mul (Finite s m e) (Finite t n k) = roundDyadic (s \<noteq> t) (m * n) (e + k)"

text \<open>
  The conversion \<^verbatim>\<open>uint64(f)\<close>: the fraction is discarded. Where the truncated value is
  not a \<^verbatim>\<open>uint64\<close> (a negative number, a value of \<open>2^64\<close> or more, an infinity, a NaN)
  the Go specification leaves the result to the implementation: the argument \<open>oor\<close> is
  what the platform yields there.
\<close>

definition truncMag :: "nat \<Rightarrow> int \<Rightarrow> nat" where
  "truncMag m e = (if e \<ge> 0 then m * 2 ^ nat e else m div 2 ^ nat (- e))"

fun uint64_of_f64 :: "(f64 \<Rightarrow> 64 word) \<Rightarrow> f64 \<Rightarrow> 64 word" where
  "uint64_of_f64 oor (Finite neg m e) =
     (if (neg \<and> truncMag m e > 0) \<or> truncMag m e \<ge> 2 ^ 64 then oor (Finite neg m e)
      else of_nat (truncMag m e))"
| "uint64_of_f64 oor v = oor v"

subsection \<open>The syntax of \<^verbatim>\<open>ParseFloat\<close>\<close>

text \<open>\<^verbatim>\<open>func lower(c byte) byte { return c | ('x' - 'X') }\<close>, as the value of the byte.\<close>

definition lower :: "char \<Rightarrow> nat" where
  "lower c = byte c OR 32"

definition isHexLetter :: "char \<Rightarrow> bool" where
  "isHexLetter c = (byte CHR ''a'' \<le> lower c \<and> lower c \<le> byte CHR ''f'')"

text \<open>
  The case folding of \<^verbatim>\<open>commonPrefixLenIgnoreCase\<close>: only \<open>A\<close> to \<open>Z\<close> change. The
  result is the value of the byte.
\<close>

definition foldCase :: "char \<Rightarrow> nat" where
  "foldCase c =
     (if byte CHR ''A'' \<le> byte c \<and> byte c \<le> byte CHR ''Z'' then byte c + 32 else byte c)"

text \<open>
  \<^verbatim>\<open>special\<close>: an optionally signed \<open>inf\<close> or \<open>infinity\<close>, or an unsigned \<open>nan\<close>, in any
  case. \<^verbatim>\<open>ParseFloat\<close> rejects a string of which only a prefix was consumed, so only
  the whole string counts here.
\<close>

definition special :: "string \<Rightarrow> f64 option" where
  "special s =
     (case s of
        [] \<Rightarrow> None
      | c # cs \<Rightarrow>
          if c = CHR ''+'' \<or> c = CHR ''-'' then
            (if map foldCase cs = map byte ''inf'' \<or> map foldCase cs = map byte ''infinity''
             then Some (Infinite (c = CHR ''-'')) else None)
          else if c = CHR ''i'' \<or> c = CHR ''I'' then
            (if map foldCase s = map byte ''inf'' \<or> map foldCase s = map byte ''infinity''
             then Some (Infinite False) else None)
          else if c = CHR ''n'' \<or> c = CHR ''N'' then
            (if map foldCase s = map byte ''nan'' then Some NaN else None)
          else None)"

text \<open>
  The mantissa loop of \<^verbatim>\<open>readFloat\<close>: digits of the base, at most one point, underscores.
  It yields whether a digit was seen, the digits read as a number, how many of them
  followed the point, whether an underscore was seen, and the input left. (The library
  keeps only the first 19 digits and a truncation flag, and converts the digits again,
  exactly, when the flag is set; the model keeps all of them.)
\<close>

fun readMantissa ::
  "nat \<Rightarrow> bool \<Rightarrow> bool \<Rightarrow> nat \<Rightarrow> nat \<Rightarrow> bool \<Rightarrow> string \<Rightarrow> bool \<times> nat \<times> nat \<times> bool \<times> string" where
  "readMantissa base sawdot sawdigits mant nfrac us [] = (sawdigits, mant, nfrac, us, [])"
| "readMantissa base sawdot sawdigits mant nfrac us (c # cs) =
     (if c = CHR ''_'' then readMantissa base sawdot sawdigits mant nfrac True cs
      else if c = CHR ''.'' then
        (if sawdot then (sawdigits, mant, nfrac, us, c # cs)
         else readMantissa base True sawdigits mant nfrac us cs)
      else if isDigit c then
        readMantissa base sawdot True (mant * base + digitVal c)
          (if sawdot then nfrac + 1 else nfrac) us cs
      else if base = 16 \<and> isHexLetter c then
        readMantissa base sawdot True (mant * 16 + (lower c - byte CHR ''a'' + 10))
          (if sawdot then nfrac + 1 else nfrac) us cs
      else (sawdigits, mant, nfrac, us, c # cs))"

text \<open>The exponent digits: \<^verbatim>\<open>if e < 10000 { e = e*10 + int(s[i]) - '0' }\<close>.\<close>

fun readExpDigits :: "nat \<Rightarrow> bool \<Rightarrow> string \<Rightarrow> nat \<times> bool \<times> string" where
  "readExpDigits e us [] = (e, us, [])"
| "readExpDigits e us (c # cs) =
     (if c = CHR ''_'' then readExpDigits e True cs
      else if isDigit c then readExpDigits (if e < 10000 then e * 10 + digitVal c else e) us cs
      else (e, us, c # cs))"

text \<open>\<^verbatim>\<open>underscoreOK\<close>: an underscore stands only between digits, or after a base prefix.\<close>

fun underscoreOK_loop :: "bool \<Rightarrow> char \<Rightarrow> string \<Rightarrow> bool" where
  "underscoreOK_loop hex saw [] = (saw \<noteq> CHR ''_'')"
| "underscoreOK_loop hex saw (c # cs) =
     (if isDigit c \<or> (hex \<and> isHexLetter c) then underscoreOK_loop hex CHR ''0'' cs
      else if c = CHR ''_'' then
        (if saw \<noteq> CHR ''0'' then False else underscoreOK_loop hex CHR ''_'' cs)
      else if saw = CHR ''_'' then False
      else underscoreOK_loop hex CHR ''!'' cs)"

definition underscoreOK :: "string \<Rightarrow> bool" where
  "underscoreOK s0 =
     (let s = (case s0 of [] \<Rightarrow> [] | c # cs \<Rightarrow> if c = CHR ''-'' \<or> c = CHR ''+'' then cs else s0);
          pre = (case s of
                   a # b # _ \<Rightarrow> a = CHR ''0'' \<and>
                     (lower b = byte CHR ''b'' \<or> lower b = byte CHR ''o'' \<or> lower b = byte CHR ''x'')
                 | _ \<Rightarrow> False);
          hex = (pre \<and> lower (s ! 1) = byte CHR ''x'')
      in underscoreOK_loop hex (if pre then CHR ''0'' else CHR ''^'') (if pre then drop 2 s else s))"

text \<open>
  \<^verbatim>\<open>readFloat\<close>: sign, optional \<open>0x\<close> prefix (only when a character follows it), mantissa,
  exponent (\<open>e\<close> for decimal; \<open>p\<close>, mandatory, for hexadecimal). The result is the sign,
  whether the number is hexadecimal, the mantissa digits as a number, the exponent (of
  10, or of 2 for a hexadecimal number) and the input left.
\<close>

definition readFloat :: "string \<Rightarrow> (bool \<times> bool \<times> nat \<times> int \<times> string) option" where
  "readFloat s =
     (case s of
        [] \<Rightarrow> None
      | c0 # _ \<Rightarrow>
          let neg = (c0 = CHR ''-'');
              s1 = (if c0 = CHR ''+'' \<or> c0 = CHR ''-'' then tl s else s);
              hex = (case s1 of a # b # _ # _ \<Rightarrow> a = CHR ''0'' \<and> lower b = byte CHR ''x'' | _ \<Rightarrow> False);
              (sawdigits, mant, nfrac, us, r) =
                 readMantissa (if hex then 16 else 10) False False 0 0 False
                   (if hex then drop 2 s1 else s1);
              dp = - int (if hex then 4 * nfrac else nfrac)
          in if \<not> sawdigits then None
             else
               (case r of
                  [] \<Rightarrow> if hex then None
                        else if us \<and> \<not> underscoreOK s then None
                        else Some (neg, hex, mant, dp, [])
                | x # r1 \<Rightarrow>
                    if lower x = byte (if hex then CHR ''p'' else CHR ''e'') then
                      (case r1 of
                         [] \<Rightarrow> None
                       | y # _ \<Rightarrow>
                           let r2 = (if y = CHR ''+'' \<or> y = CHR ''-'' then tl r1 else r1)
                           in (case r2 of
                                 [] \<Rightarrow> None
                               | z # _ \<Rightarrow>
                                   if \<not> isDigit z then None
                                   else
                                     let (e, us', r3) = readExpDigits 0 us r2;
                                         ex = (if y = CHR ''-'' then dp - int e else dp + int e)
                                     in if us' \<and> \<not> underscoreOK (take (length s - length r3) s)
                                        then None
                                        else Some (neg, hex, mant, ex, r3)))
                    else if hex then None
                    else if us \<and> \<not> underscoreOK (take (length s - length r) s) then None
                    else Some (neg, hex, mant, dp, r)))"

text \<open>
  \<^verbatim>\<open>ParseFloat(s, 64)\<close>: the whole string has to be consumed; the value is the nearest
  binary64 of the exact number written; a number too large is a range error.
\<close>

definition ParseFloat :: "string \<Rightarrow> num_error + f64" where
  "ParseFloat s =
     (case special s of
        Some v \<Rightarrow> Inr v
      | None \<Rightarrow>
          (case readFloat s of
             None \<Rightarrow> Inl ErrSyntax
           | Some (neg, hex, mant, ex, rest) \<Rightarrow>
               if rest \<noteq> [] then Inl ErrSyntax
               else
                 let b = (if hex then 2 else 10);
                     (v, ovf) = (if ex \<ge> 0 then roundToF64 neg (mant * b ^ nat ex) 1
                                 else roundToF64 neg mant (b ^ nat (- ex)))
                 in if ovf then Inl ErrRange else Inr v))"

section \<open>The record parser\<close>

text \<open>
  A \<^verbatim>\<open>time.Time\<close>, as far as this program reads it: the calendar date and the time of
  day (opaque here). \<^verbatim>\<open>ts.Format("20060102")\<close> is the zero-padded year, month and day.
\<close>

record gotime =
  t_year :: nat
  t_month :: nat
  t_day :: nat
  t_nanos :: nat

definition pad :: "nat \<Rightarrow> string \<Rightarrow> string" where
  "pad w s = replicate (w - length s) CHR ''0'' @ s"

definition Format_20060102 :: "gotime \<Rightarrow> string" where
  "Format_20060102 t = pad 4 (dec (t_year t)) @ pad 2 (dec (t_month t)) @ pad 2 (dec (t_day t))"

text \<open>
  What the parser reads from outside its arguments: the global \<^verbatim>\<open>tsFormat\<close>, set once
  before the listener starts; the library's \<^verbatim>\<open>time.Time.Format\<close> for an arbitrary
  layout; and the platform's result of an out-of-range \<^verbatim>\<open>uint64(f)\<close>.
\<close>

record env =
  tsFormat :: string
  time_Format :: "gotime \<Rightarrow> string \<Rightarrow> string"
  uint64_oor :: "f64 \<Rightarrow> 64 word"

definition FormatTimestamp :: "env \<Rightarrow> gotime \<Rightarrow> string" where
  "FormatTimestamp e ts = (if length (tsFormat e) = 0 then [] else time_Format e ts (tsFormat e))"

text \<open>
  \<^verbatim>\<open>FD\<close> and \<^verbatim>\<open>Level\<close> are Go \<^verbatim>\<open>uint\<close>s, 32 or 64 bits wide with the platform; both are
  read with \<^verbatim>\<open>ParseUint(_, 10, 32)\<close>, so their values are below \<open>2^32\<close> on either.
\<close>

record LineInfo =
  Src :: string
  Timestamp :: gotime
  DeviceID :: string
  SeqNum :: "64 word"
  UptimeMs :: "64 word"
  FD :: "32 word"
  Level :: "32 word"
  Msg :: string
  TimestampStr :: string
  DeviceIDSafe :: string
  Year :: string
  Month :: string
  Day :: string
  LevelChar :: string

text \<open>The errors of \<^verbatim>\<open>parseLine\<close>, one for each \<^verbatim>\<open>fmt.Errorf\<close> of the function.\<close>

datatype parse_error =
    MissingMsgDelimiter
  | InvalidNumberOfParts
  | InvalidDeviceId
  | InvalidSeqnum
  | InvalidUptime
  | InvalidFd
  | InvalidLevel

text \<open>
  A Go slice of the line buffer is an offset and a length: \<^verbatim>\<open>bytes.Cut\<close> and
  \<^verbatim>\<open>bytes.Split\<close> return sub-slices of their argument, which share its memory.
\<close>

type_synonym slice = "nat \<times> nat"

definition slice_bytes :: "string \<Rightarrow> slice \<Rightarrow> string" where
  "slice_bytes buf sl = take (snd sl) (drop (fst sl) buf)"

text \<open>
  \<^verbatim>\<open>bytes.Cut(line, sep)\<close> for a one-byte separator: the parts before and after its first
  occurrence; without one, the whole line, an empty slice and \<^verbatim>\<open>false\<close>.
\<close>

definition bytes_Cut :: "string \<Rightarrow> char \<Rightarrow> slice \<times> slice \<times> bool" where
  "bytes_Cut s sep =
     (let i = length (takeWhile (\<lambda>c. c \<noteq> sep) s)
      in if i < length s then ((0, i), (Suc i, length s - Suc i), True)
         else ((0, length s), (0, 0), False))"

text \<open>
  \<^verbatim>\<open>bytes.Split(s, sep)\<close> for a one-byte separator: the sub-slices between the
  separators, one more than there are separators. \<open>start\<close> is where the current piece
  begins and \<open>pos\<close> the position of the next byte.
\<close>

fun split_from :: "char \<Rightarrow> nat \<Rightarrow> nat \<Rightarrow> string \<Rightarrow> slice list" where
  "split_from sep start pos [] = [(start, pos - start)]"
| "split_from sep start pos (c # cs) =
     (if c = sep then (start, pos - start) # split_from sep (Suc pos) (Suc pos) cs
      else split_from sep start (Suc pos) cs)"

definition bytes_Split :: "string \<Rightarrow> slice \<Rightarrow> char \<Rightarrow> slice list" where
  "bytes_Split buf sl sep = split_from sep (fst sl) (fst sl) (slice_bytes buf sl)"

text \<open>
  \<^verbatim>\<open>parseLine(ts, src, line)\<close>. The result is the \<^verbatim>\<open>LineInfo\<close> or the error, and the line
  buffer as the function leaves it: the sanitizing loop writes into \<^verbatim>\<open>parts[0]\<close>, which
  is a part of \<^verbatim>\<open>line\<close>. \<^verbatim>\<open>DeviceID\<close> is copied out (\<^verbatim>\<open>string(parts[0])\<close>) before the
  loop, \<^verbatim>\<open>DeviceIDSafe\<close> and \<^verbatim>\<open>Msg\<close> after it.
\<close>

definition parseLine ::
  "env \<Rightarrow> gotime \<Rightarrow> string \<Rightarrow> string \<Rightarrow> (parse_error + LineInfo) \<times> string" where
  "parseLine e ts src line =
     (case bytes_Cut line CHR ''|'' of
        (infoStr, msg, found) \<Rightarrow>
          if \<not> found then (Inl MissingMsgDelimiter, line)
          else
            let parts = bytes_Split line infoStr CHR '' ''
            in if length parts \<noteq> 5 then (Inl InvalidNumberOfParts, line)
               else if \<not> (snd (parts ! 0) > 0 \<and> snd (parts ! 0) \<le> 50)
                 then (Inl InvalidDeviceId, line)
               else
                 (case ParseUint (slice_bytes line (parts ! 1)) 64 of
                    Inl _ \<Rightarrow> (Inl InvalidSeqnum, line)
                  | Inr seqnum \<Rightarrow>
                 (case ParseFloat (slice_bytes line (parts ! 2)) of
                    Inl _ \<Rightarrow> (Inl InvalidUptime, line)
                  | Inr v \<Rightarrow>
                 (case ParseUint (slice_bytes line (parts ! 3)) 32 of
                    Inl _ \<Rightarrow> (Inl InvalidFd, line)
                  | Inr fd \<Rightarrow>
                 (case ParseUint (slice_bytes line (parts ! 4)) 32 of
                    Inl _ \<Rightarrow> (Inl InvalidLevel, line)
                  | Inr lvl \<Rightarrow>
                      let line' = sanitize_at line (fst (parts ! 0)) (snd (parts ! 0));
                          ds = Format_20060102 ts
                      in (Inr \<lparr> Src = src,
                                Timestamp = ts,
                                DeviceID = slice_bytes line (parts ! 0),
                                SeqNum = of_nat seqnum,
                                UptimeMs = uint64_of_f64 (uint64_oor e)
                                             (f64_mul v (Finite False 1000 0)),
                                FD = of_nat fd,
                                Level = of_nat lvl,
                                Msg = slice_bytes line' msg,
                                TimestampStr = FormatTimestamp e ts,
                                DeviceIDSafe = slice_bytes line' (parts ! 0),
                                Year = take 4 ds,
                                Month = take 2 (drop 4 ds),
                                Day = take 2 (drop 6 ds),
                                LevelChar = levelChar (of_nat lvl) \<rparr>,
                          line'))))))"

section \<open>The file system, the diagnostic log and the per-device file manager\<close>

subsection \<open>Paths\<close>

text \<open>
  \<^verbatim>\<open>filepath.Base\<close>, \<^verbatim>\<open>filepath.Clean\<close> and \<^verbatim>\<open>filepath.Dir\<close> of the Go library, for
  the separator \<open>/\<close>. \<open>split_elems sep [] p\<close> are the pieces of \<open>p\<close> between its
  separators; \<open>cur\<close> holds the piece being read.
\<close>

fun split_elems :: "char \<Rightarrow> string \<Rightarrow> string \<Rightarrow> string list" where
  "split_elems sep cur [] = [cur]"
| "split_elems sep cur (c # cs) =
     (if c = sep then cur # split_elems sep [] cs else split_elems sep (cur @ [c]) cs)"

text \<open>
  The elements that \<^verbatim>\<open>Clean\<close> keeps: an empty element and \<open>.\<close> vanish; \<open>..\<close> removes the
  element before it, is dropped at the root, and stays at the start of a relative path.
  \<open>acc\<close> holds the elements kept so far, the last one first.
\<close>

fun clean_elems :: "bool \<Rightarrow> string list \<Rightarrow> string list \<Rightarrow> string list" where
  "clean_elems rooted acc [] = rev acc"
| "clean_elems rooted acc (x # xs) =
     (if x = [] \<or> x = ''.'' then clean_elems rooted acc xs
      else if x = ''..'' then
        (case acc of
           [] \<Rightarrow> if rooted then clean_elems rooted [] xs else clean_elems rooted [''..''] xs
         | a # as \<Rightarrow>
             if a = ''..'' then clean_elems rooted (''..'' # acc) xs
             else clean_elems rooted as xs)
      else clean_elems rooted (x # acc) xs)"

fun join_elems :: "string list \<Rightarrow> string" where
  "join_elems [] = []"
| "join_elems [x] = x"
| "join_elems (x # y # ys) = x @ ''/'' @ join_elems (y # ys)"

definition filepath_Clean :: "string \<Rightarrow> string" where
  "filepath_Clean p =
     (case p of
        [] \<Rightarrow> ''.''
      | c # _ \<Rightarrow>
          let rooted = (c = CHR ''/'');
              body = join_elems (clean_elems rooted [] (split_elems CHR ''/'' [] p))
          in if rooted then CHR ''/'' # body
             else if body = [] then ''.'' else body)"

definition filepath_Dir :: "string \<Rightarrow> string" where
  "filepath_Dir p = filepath_Clean (rev (dropWhile (\<lambda>c. c \<noteq> CHR ''/'') (rev p)))"

definition filepath_Base :: "string \<Rightarrow> string" where
  "filepath_Base p =
     (if p = [] then ''.''
      else
        let q = dropWhile (\<lambda>c. c = CHR ''/'') (rev p);
            b = rev (takeWhile (\<lambda>c. c \<noteq> CHR ''/'') q)
        in if b = [] then ''/'' else b)"

subsection \<open>The world outside the process\<close>

text \<open>
  The calls on the file system that the file manager makes, in the order it makes them.
  A \<^verbatim>\<open>Write\<close> is recorded with the bytes it was given, whatever its outcome.
\<close>

datatype fsop =
    OpMkdirAll string
  | OpOpenFile string
  | OpClose string
  | OpReadlink string
  | OpRemove string
  | OpSymlink string string
  | OpWrite string string

datatype open_error = ExecNameTemplate | CreateLogDir | OpenLogFile | ExecLatestTemplate

text \<open>The lines written with \<^verbatim>\<open>klog\<close>: \<^verbatim>\<open>Infof\<close> and \<^verbatim>\<open>Errorf\<close>.\<close>

datatype klog_entry =
    Info_Opened string
  | Info_Closed string
  | Info_Symlinked string string
  | Error_Symlink string string
  | Error_OpenLogFile open_error
  | Error_InvalidLogMessage string parse_error

fun isErrorf :: "klog_entry \<Rightarrow> bool" where
  "isErrorf (Info_Opened _) = False"
| "isErrorf (Info_Closed _) = False"
| "isErrorf (Info_Symlinked _ _) = False"
| "isErrorf (Error_Symlink _ _) = True"
| "isErrorf (Error_OpenLogFile _) = True"
| "isErrorf (Error_InvalidLogMessage _ _) = True"

text \<open>
  The file system as this program sees it: regular files with their contents, symbolic
  links with their targets, directories; the paths on which a system call fails
  (permission denied, path conflict); the outcomes of the coming \<^verbatim>\<open>Write\<close> calls, one for
  each call in order (\<open>None\<close>: all the bytes are written; \<open>Some k\<close>: the call returns an
  error, disk full say, after at most \<open>k\<close> of its bytes have been written; when the list
  is used up every write succeeds); the calls made, in order; the diagnostic log;
  standard output; and the clock that \<^verbatim>\<open>time.Now()\<close> reads.
\<close>

record world =
  files :: "string \<rightharpoonup> string"
  links :: "string \<rightharpoonup> string"
  dirs :: "string set"
  mkdir_fails :: "string set"
  open_fails :: "string set"
  symlink_fails :: "string set"
  write_outcomes :: "nat option list"
  syscalls :: "fsop list"
  klog :: "klog_entry list"
  stdout :: string
  now :: gotime

definition sys :: "fsop \<Rightarrow> world \<Rightarrow> world" where
  "sys op w = w\<lparr>syscalls := syscalls w @ [op]\<rparr>"

definition klogf :: "klog_entry \<Rightarrow> world \<Rightarrow> world" where
  "klogf en w = w\<lparr>klog := klog w @ [en]\<rparr>"

text \<open>\<^verbatim>\<open>os.MkdirAll(dir, 0o755)\<close>: whether it succeeded, and the world after it.\<close>

definition os_MkdirAll :: "string \<Rightarrow> world \<Rightarrow> bool \<times> world" where
  "os_MkdirAll d w =
     (if d \<in> mkdir_fails w then (False, sys (OpMkdirAll d) w)
      else (True, sys (OpMkdirAll d) (w\<lparr>dirs := insert d (dirs w)\<rparr>)))"

text \<open>
  \<^verbatim>\<open>os.OpenFile(name, O_APPEND|O_CREATE|O_WRONLY, 0o644)\<close>: a missing file is created
  empty, an existing one keeps its contents. The open file is identified by its path.
\<close>

definition os_OpenFile :: "string \<Rightarrow> world \<Rightarrow> string option \<times> world" where
  "os_OpenFile name w =
     (if name \<in> open_fails w then (None, sys (OpOpenFile name) w)
      else (Some name,
            sys (OpOpenFile name)
              (case files w name of
                 None \<Rightarrow> w\<lparr>files := (files w)(name \<mapsto> [])\<rparr>
               | Some _ \<Rightarrow> w)))"

text \<open>\<^verbatim>\<open>os.Readlink(name)\<close>: the target, or \<open>None\<close> for the error.\<close>

definition os_Readlink :: "string \<Rightarrow> world \<Rightarrow> string option \<times> world" where
  "os_Readlink name w = (links w name, sys (OpReadlink name) w)"

text \<open>\<^verbatim>\<open>os.Remove(name)\<close>; the caller ignores its error.\<close>

definition os_Remove :: "string \<Rightarrow> world \<Rightarrow> world" where
  "os_Remove name w =
     sys (OpRemove name) (w\<lparr>files := (files w)(name := None), links := (links w)(name := None)\<rparr>)"

text \<open>\<^verbatim>\<open>os.Symlink(oldname, newname)\<close>: fails where something already has the new name.\<close>

definition os_Symlink :: "string \<Rightarrow> string \<Rightarrow> world \<Rightarrow> bool \<times> world" where
  "os_Symlink oldname newname w =
     (if newname \<in> symlink_fails w \<or> links w newname \<noteq> None \<or> files w newname \<noteq> None
      then (False, sys (OpSymlink oldname newname) w)
      else (True, sys (OpSymlink oldname newname) (w\<lparr>links := (links w)(newname \<mapsto> oldname)\<rparr>)))"

text \<open>
  The outcome of the next \<^verbatim>\<open>Write\<close> call on \<open>bs\<close>: the bytes that reach the file and
  whether the call succeeds; and the outcomes left for the calls after it.
\<close>

definition write_outcome :: "string \<Rightarrow> world \<Rightarrow> string \<times> bool" where
  "write_outcome bs w =
     (case write_outcomes w of
        [] \<Rightarrow> (bs, True)
      | None # rest \<Rightarrow> (bs, True)
      | Some k # rest \<Rightarrow> (take k bs, False))"

definition consume_outcome :: "world \<Rightarrow> world" where
  "consume_outcome w = w\<lparr>write_outcomes := tl (write_outcomes w)\<rparr>"

text \<open>
  A \<^verbatim>\<open>Write\<close> on an open file appends (\<^verbatim>\<open>O_APPEND\<close>) the bytes that the outcome of the
  call lets through. On a nil file it returns an error and does nothing. The result tells
  whether the write succeeded.
\<close>

definition File_Write :: "string option \<Rightarrow> string \<Rightarrow> world \<Rightarrow> bool \<times> world" where
  "File_Write f bs w =
     (case f of
        None \<Rightarrow> (False, w)
      | Some name \<Rightarrow>
          (snd (write_outcome bs w),
           sys (OpWrite name bs)
             (consume_outcome
                (w\<lparr>files := (files w)(name \<mapsto>
                      (case files w name of None \<Rightarrow> [] | Some c \<Rightarrow> c) @ fst (write_outcome bs w))\<rparr>))))"

text \<open>\<^verbatim>\<open>os.Stdout.Write(b)\<close>: a write on the standard output, with its outcome.\<close>

definition Stdout_Write :: "string \<Rightarrow> world \<Rightarrow> bool \<times> world" where
  "Stdout_Write bs w =
     (snd (write_outcome bs w),
      consume_outcome (w\<lparr>stdout := stdout w @ fst (write_outcome bs w)\<rparr>))"

subsection \<open>Device handles\<close>

text \<open>
  \<^verbatim>\<open>type deviceInfo struct { fd *os.File; fname string; lastUsed time.Time }\<close>.
  A nil \<^verbatim>\<open>fd\<close> is \<open>None\<close>.
\<close>

record deviceInfo =
  fd :: "string option"
  fname :: string
  lastUsed :: gotime

text \<open>
  A compiled \<^verbatim>\<open>*template.Template\<close> that is run into a buffer (the file name templates)
  is the function it computes on a \<^verbatim>\<open>LineInfo\<close>; \<open>None\<close> is an error of its execution.
  \<^verbatim>\<open>execTmpl\<close> runs it into a buffer, which cannot fail to take the bytes.
\<close>

type_synonym template = "LineInfo \<Rightarrow> string option"

text \<open>
  A template that is executed into a file (the record formats) writes as it goes: each
  text node and each action is one \<^verbatim>\<open>Write\<close> call on the file. Such a template is the
  list of the pieces that its execution on a \<^verbatim>\<open>LineInfo\<close> produces, in order; \<open>None\<close> is
  an action whose evaluation fails.
\<close>

type_synonym record_template = "LineInfo \<Rightarrow> string option list"

definition execTmpl :: "template \<Rightarrow> LineInfo \<Rightarrow> string option" where
  "execTmpl t li = t li"

text \<open>\<^verbatim>\<open>func (di *deviceInfo) Close() error\<close>\<close>

definition Close :: "deviceInfo \<Rightarrow> world \<Rightarrow> deviceInfo \<times> world" where
  "Close di w =
     (case fd di of
        Some f \<Rightarrow> (di\<lparr>fd := None\<rparr>, sys (OpClose f) (klogf (Info_Closed (fname di)) w))
      | None \<Rightarrow> (di, w))"

text \<open>
  \<^verbatim>\<open>func (di *deviceInfo) Open(nameTmpl, latestNameTmpl *template.Template, li *LineInfo) error\<close>.
  The result is the error (\<open>None\<close> for nil), the handle and the world as the call leaves
  them. The statements are those of the source, in its order: the early return when the
  name is unchanged and the file open; the close; the assignment to \<^verbatim>\<open>di.fname\<close>; the
  directory; the file; the symbolic link.
\<close>

definition Open ::
  "template \<Rightarrow> template option \<Rightarrow> LineInfo \<Rightarrow> deviceInfo \<Rightarrow> world
     \<Rightarrow> open_error option \<times> deviceInfo \<times> world" where
  "Open nameT latestT li di w =
     (case execTmpl nameT li of
        None \<Rightarrow> (Some ExecNameTemplate, di, w)
      | Some name \<Rightarrow>
          if fname di = name \<and> fd di \<noteq> None then (None, di, w)
          else
            let (di1, w1) = (if fd di \<noteq> None then Close di w else (di, w));
                di2 = di1\<lparr>fname := name\<rparr>;
                (ok, w2) = os_MkdirAll (filepath_Dir name) w1
            in if \<not> ok then (Some CreateLogDir, di2, w2)
               else
                 (case os_OpenFile (fname di2) w2 of
                    (None, w3) \<Rightarrow> (Some OpenLogFile, di2, w3)
                  | (Some f, w3) \<Rightarrow>
                      let w4 = klogf (Info_Opened (fname di2)) w3;
                          di3 = di2\<lparr>fd := Some f\<rparr>
                      in (case latestT of
                            None \<Rightarrow> (None, di3, w4)
                          | Some lt \<Rightarrow>
                              (case execTmpl lt li of
                                 None \<Rightarrow> (Some ExecLatestTemplate, di3, w4)
                               | Some latestName \<Rightarrow>
                                   let (target, w5) = os_Readlink latestName w4;
                                       latestBase = filepath_Base (fname di3)
                                   in if target \<noteq> Some latestBase then
                                        (let w6 = os_Remove latestName w5;
                                             (linked, w7) = os_Symlink latestBase latestName w6
                                         in if \<not> linked
                                            then (None, di3, klogf (Error_Symlink (fname di3) latestBase) w7)
                                            else (None, di3, klogf (Info_Symlinked latestName latestBase) w7))
                                      else (None, di3, w5)))))"

subsection \<open>The file manager\<close>

text \<open>
  \<^verbatim>\<open>type FileManager struct { nameTmpl, latestNameTmpl, recordTmpl *template.Template;
     mu sync.Mutex; devices map[string]*deviceInfo }\<close>. The mutex is held for the whole of
  \<^verbatim>\<open>WriteLine\<close>, so a call is one step here. The map holds pointers: what \<^verbatim>\<open>Open\<close> does
  to the handle is seen through the map, whether \<^verbatim>\<open>Open\<close> fails or not.
\<close>

record FileManager =
  nameTmpl :: template
  latestNameTmpl :: "template option"
  recordTmpl :: record_template
  devices :: "string \<rightharpoonup> deviceInfo"

text \<open>
  \<^verbatim>\<open>tmpl.Execute(wr, li)\<close>: the pieces are written to \<open>wr\<close> one after the other. The
  execution stops at the first action that fails and at the first write that fails; what
  has been written before stays written. The callers ignore the error.
\<close>

fun writeNodes ::
  "(string \<Rightarrow> world \<Rightarrow> bool \<times> world) \<Rightarrow> string option list \<Rightarrow> world \<Rightarrow> bool \<times> world" where
  "writeNodes wr [] w = (True, w)"
| "writeNodes wr (None # ns) w = (False, w)"
| "writeNodes wr (Some text # ns) w =
     (case wr text w of
        (True, w1) \<Rightarrow> writeNodes wr ns w1
      | (False, w1) \<Rightarrow> (False, w1))"

definition Execute ::
  "record_template \<Rightarrow> (string \<Rightarrow> world \<Rightarrow> bool \<times> world) \<Rightarrow> LineInfo \<Rightarrow> world \<Rightarrow> bool \<times> world" where
  "Execute t wr li w = writeNodes wr (t li) w"

text \<open>
  The handle that \<^verbatim>\<open>WriteLine\<close> works on:
  \<^verbatim>\<open>di, found := fm.devices[li.DeviceIDSafe]; if !found { di = &deviceInfo{lastUsed: time.Now()} }\<close>
\<close>

definition getDevice :: "FileManager \<Rightarrow> LineInfo \<Rightarrow> world \<Rightarrow> deviceInfo" where
  "getDevice fm li w =
     (case devices fm (DeviceIDSafe li) of
        Some d \<Rightarrow> d
      | None \<Rightarrow> \<lparr>fd = None, fname = [], lastUsed = now w\<rparr>)"

text \<open>\<^verbatim>\<open>func (fm *FileManager) WriteLine(li *LineInfo)\<close>\<close>

definition WriteLine :: "FileManager \<Rightarrow> LineInfo \<Rightarrow> world \<Rightarrow> FileManager \<times> world" where
  "WriteLine fm li w =
     (let di = getDevice fm li w
      in case Open (nameTmpl fm) (latestNameTmpl fm) li di w of
           (Some err, di1, w1) \<Rightarrow>
             (fm\<lparr>devices := (devices fm)(DeviceIDSafe li \<mapsto> di1)\<rparr>,
              klogf (Error_OpenLogFile err) w1)
         | (None, di1, w1) \<Rightarrow>
             let w2 = snd (Execute (recordTmpl fm) (File_Write (fd di1)) li w1);
                 w3 = snd (File_Write (fd di1) [CHR 0x0A] w2)
             in (fm\<lparr>devices := (devices fm)(DeviceIDSafe li \<mapsto> di1\<lparr>lastUsed := now w3\<rparr>)\<rparr>, w3))"

text \<open>
  The file name templates that \<^verbatim>\<open>NewFileManager(dir, _)\<close> compiles:
  \<^verbatim>\<open>filepath.Join(dir, "{{.DeviceIDSafe}}", deviceLogName)\<close> with
  \<^verbatim>\<open>deviceLogName = "{{.DeviceIDSafe}}.{{.Year}}{{.Month}}{{.Day}}.log"\<close>, and the same with
  \<^verbatim>\<open>latestDeviceLogName = "{{.DeviceIDSafe}}.log"\<close>. \<^verbatim>\<open>Join\<close> cleans the text of the
  template, before any device id is put in: the elements that follow \<open>dir\<close> are ordinary
  names there, so the text is the cleaned directory, a separator (none after \<open>.\<close> and
  after the root) and those elements. The directory is taken to hold no template action
  of its own.
\<close>

definition deviceLogName :: "LineInfo \<Rightarrow> string" where
  "deviceLogName li = DeviceIDSafe li @ ''.'' @ Year li @ Month li @ Day li @ ''.log''"

definition latestDeviceLogName :: "LineInfo \<Rightarrow> string" where
  "latestDeviceLogName li = DeviceIDSafe li @ ''.log''"

definition joinDir :: "string \<Rightarrow> string \<Rightarrow> string" where
  "joinDir dir rel =
     (let d = filepath_Clean dir
      in if dir = [] \<or> d = ''.'' then rel
         else if d = ''/'' then ''/'' @ rel
         else d @ ''/'' @ rel)"

definition fileNameTmpl :: "string \<Rightarrow> template" where
  "fileNameTmpl dir li = Some (joinDir dir (DeviceIDSafe li @ ''/'' @ deviceLogName li))"

definition latestFileNameTmpl :: "string \<Rightarrow> template" where
  "latestFileNameTmpl dir li =
     Some (joinDir dir (DeviceIDSafe li @ ''/'' @ latestDeviceLogName li))"

text \<open>The default of \<^verbatim>\<open>--file-format\<close>: \<^verbatim>\<open>{{.TimestampStr}} {{.Src}} {{.LevelChar}} {{.Msg}}\<close>.\<close>

definition defaultFileFormat :: record_template where
  "defaultFileFormat li =
     [Some (TimestampStr li), Some '' '', Some (Src li), Some '' '', Some (LevelChar li),
      Some '' '', Some (Msg li)]"

section \<open>Processing a line and a packet\<close>

text \<open>
  \<^verbatim>\<open>processLine(ts, src, line, fm)\<close>, with the global \<^verbatim>\<open>stdoutTmpl\<close> as an argument. A nil
  template or file manager is \<open>None\<close>. The result is the error (\<open>None\<close> for nil), the
  line buffer after \<^verbatim>\<open>parseLine\<close>, the file manager and the world.
\<close>

definition processLine ::
  "env \<Rightarrow> record_template option \<Rightarrow> gotime \<Rightarrow> string \<Rightarrow> string \<Rightarrow> FileManager option \<Rightarrow> world
     \<Rightarrow> parse_error option \<times> string \<times> FileManager option \<times> world" where
  "processLine e stdoutT ts src line fm w =
     (case parseLine e ts src line of
        (Inl err, line') \<Rightarrow> (Some err, line', fm, w)
      | (Inr li, line') \<Rightarrow>
          let w1 = (case stdoutT of
                      None \<Rightarrow> w
                    | Some t \<Rightarrow>
                        snd (Stdout_Write [CHR 0x0A] (snd (Execute t Stdout_Write li w))))
          in (case fm of
                None \<Rightarrow> (None, line', None, w1)
              | Some m \<Rightarrow>
                  (case WriteLine m li w1 of (m', w2) \<Rightarrow> (None, line', Some m', w2))))"

text \<open>
  \<^verbatim>\<open>buf.ReadBytes('\n')\<close> on a \<^verbatim>\<open>bytes.Buffer\<close>: a copy of the bytes up to and with the
  first delimiter, or of all the bytes left when there is none, and the buffer after it.
\<close>

definition ReadBytes :: "string \<Rightarrow> char \<Rightarrow> string \<times> string" where
  "ReadBytes buf delim =
     (let i = length (takeWhile (\<lambda>c. c \<noteq> delim) buf)
      in if i < length buf then (take (Suc i) buf, drop (Suc i) buf) else (buf, []))"

text \<open>\<^verbatim>\<open>bytes.TrimRight(s, cutset)\<close>\<close>

definition TrimRight :: "string \<Rightarrow> string \<Rightarrow> string" where
  "TrimRight s cutset = rev (dropWhile (\<lambda>c. c \<in> set cutset) (rev s))"

text \<open>
  The body of the inner loop of \<^verbatim>\<open>UDPLog\<close> for one line: \<^verbatim>\<open>processLine\<close>, and the
  \<^verbatim>\<open>klog.Errorf("invalid log message %q: %v", string(line), err)\<close> when it fails.
\<close>

definition lineStep ::
  "env \<Rightarrow> record_template option \<Rightarrow> gotime \<Rightarrow> string \<Rightarrow> FileManager option \<times> world \<Rightarrow> string
     \<Rightarrow> FileManager option \<times> world" where
  "lineStep e stdoutT ts src st line =
     (case processLine e stdoutT ts src line (fst st) (snd st) of
        (Some err, line', fm', w') \<Rightarrow> (fm', klogf (Error_InvalidLogMessage line' err) w')
      | (None, line', fm', w') \<Rightarrow> (fm', w'))"

text \<open>
  The inner loop of \<^verbatim>\<open>UDPLog\<close>:
  \<^verbatim>\<open>for buf.Len() > 10 { line, _ := buf.ReadBytes('\n'); line = bytes.TrimRight(line, "\r\n"); ... }\<close>
\<close>

function packetLoop ::
  "env \<Rightarrow> record_template option \<Rightarrow> gotime \<Rightarrow> string \<Rightarrow> string \<Rightarrow> FileManager option \<times> world
     \<Rightarrow> FileManager option \<times> world" where
  "packetLoop e stdoutT ts src buf st =
     (if length buf > 10 then
        packetLoop e stdoutT ts src (snd (ReadBytes buf (CHR 0x0A)))
          (lineStep e stdoutT ts src st
             (TrimRight (fst (ReadBytes buf (CHR 0x0A))) [CHR 0x0D, CHR 0x0A]))
      else st)"
  by pat_completeness auto
termination
  by (relation "measure (\<lambda>(e, stdoutT, ts, src, buf, st). length buf)")
     (auto simp: ReadBytes_def Let_def)

declare packetLoop.simps [simp del]

text \<open>
  The body of the outer loop for one datagram: the packet buffer has 1500 bytes, the
  timestamp is taken when the datagram has been read.
\<close>

definition handlePacket ::
  "env \<Rightarrow> record_template option \<Rightarrow> string \<Rightarrow> string \<Rightarrow> FileManager option \<times> world
     \<Rightarrow> FileManager option \<times> world" where
  "handlePacket e stdoutT src data st =
     packetLoop e stdoutT (now (snd st)) src (take 1500 data) st"

text \<open>The lines that the inner loop passes to \<^verbatim>\<open>processLine\<close>, in order.\<close>

function packetLines :: "string \<Rightarrow> string list" where
  "packetLines buf =
     (if length buf > 10 then
        TrimRight (fst (ReadBytes buf (CHR 0x0A))) [CHR 0x0D, CHR 0x0A]
          # packetLines (snd (ReadBytes buf (CHR 0x0A)))
      else [])"
  by pat_completeness auto
termination
  by (relation "measure length") (auto simp: ReadBytes_def Let_def)

declare packetLines.simps [simp del]

section \<open>Auxiliary notions for the statements\<close>

text \<open>
  \<open>idLen line\<close> is the length of the first field of a line: the bytes before the first
  space of the part before the first \<open>|\<close>.
\<close>

definition idLen :: "string \<Rightarrow> nat" where
  "idLen line =
     length (takeWhile (\<lambda>c. c \<noteq> CHR '' '')
       (take (length (takeWhile (\<lambda>c. c \<noteq> CHR ''|'') line)) line))"

text \<open>
  The number that a string of decimal digits denotes, and the number that the decimal
  numeral \<open>ip.fp\<close> denotes (\<open>ip\<close> the digits before the point, \<open>fp\<close> those after it), as a
  real number.
\<close>

definition digitsValue :: "string \<Rightarrow> nat" where
  "digitsValue ds = foldl (\<lambda>a c. a * 10 + digitVal c) 0 ds"

definition decimalValue :: "string \<Rightarrow> string \<Rightarrow> real" where
  "decimalValue ip fp = real (digitsValue ip) + real (digitsValue fp) / 10 ^ length fp"

text \<open>
  A configuration and a receive time for the examples: no timestamp format (so that
  \<^verbatim>\<open>TimestampStr\<close> is empty), 2 January 2022.
\<close>

definition example_env :: env where
  "example_env = \<lparr>tsFormat = [], time_Format = (\<lambda>t l. []), uint64_oor = (\<lambda>v. 0)\<rparr>"

definition example_time :: gotime where
  "example_time = \<lparr>t_year = 2022, t_month = 1, t_day = 2, t_nanos = 11045000000000\<rparr>"

text \<open>
  A first write for the examples: the event of the record \<open>dev1 42 12.5 3 2|hello world\<close>
  received on 2 January 2022, a file manager for the directory \<open>logs\<close> with the default
  record format and no device yet, and a world with an empty file system in which no
  system call fails.
\<close>

definition example_li :: LineInfo where
  "example_li =
     \<lparr>Src = ''192.0.2.1:4000'', Timestamp = example_time, DeviceID = ''dev1'',
      SeqNum = 42, UptimeMs = 12500, FD = 3, Level = 2, Msg = ''hello world'',
      TimestampStr = [], DeviceIDSafe = ''dev1'', Year = ''2022'', Month = ''01'',
      Day = ''02'', LevelChar = ''I''\<rparr>"

definition example_fm :: FileManager where
  "example_fm =
     \<lparr>nameTmpl = fileNameTmpl ''logs'',
      latestNameTmpl = Some (latestFileNameTmpl ''logs''),
      recordTmpl = defaultFileFormat,
      devices = Map.empty\<rparr>"

definition example_world :: world where
  "example_world =
     \<lparr>files = Map.empty, links = Map.empty, dirs = {''logs''},
      mkdir_fails = {}, open_fails = {}, symlink_fails = {}, write_outcomes = [],
      syscalls = [], klog = [], stdout = [], now = example_time\<rparr>"

text \<open>The file manager and the world after that first write.\<close>

definition example_fm1 :: FileManager where
  "example_fm1 = fst (WriteLine example_fm example_li example_world)"

definition example_world1 :: world where
  "example_world1 = snd (WriteLine example_fm example_li example_world)"

text \<open>The event of the same device a day later, received on 3 January 2022.\<close>

definition example_li2 :: LineInfo where
  "example_li2 = example_li\<lparr>Timestamp := example_time\<lparr>t_day := 3\<rparr>, Day := ''03''\<rparr>"

named_theorems ev \<open>definitions unfolded to evaluate the model on a concrete input\<close>

lemmas [ev] =
  ParseFloat_def special_def readFloat_def roundToF64_def floorLog2_def bitLength.simps
  lower_def isHexLetter_def isDigit_def digitVal_def byte_def Let_def foldCase_def
  underscoreOK_def ParseUint_def maxUint64_def roundDyadic_def truncMag_def
  parseLine_def bytes_Cut_def bytes_Split_def slice_bytes_def sanitize_at_def safeChars_def
  Format_20060102_def pad_def dec.simps digitChar_def FormatTimestamp_def levelChar_def
  example_env_def example_time_def

named_theorems fsev \<open>definitions unfolded to run the file manager on a concrete world\<close>

lemmas [fsev] =
  WriteLine_def getDevice_def Open_def Close_def execTmpl_def Execute_def File_Write_def
  Stdout_Write_def write_outcome_def consume_outcome_def
  os_MkdirAll_def os_OpenFile_def os_Readlink_def os_Remove_def os_Symlink_def sys_def klogf_def
  fileNameTmpl_def latestFileNameTmpl_def joinDir_def deviceLogName_def latestDeviceLogName_def
  defaultFileFormat_def filepath_Dir_def filepath_Clean_def filepath_Base_def Let_def
  example_li_def example_fm_def example_world_def

section \<open>Sanitization\<close>

lemma safeChars_underscore: "safeChars CHR ''_''"
  by (simp add: safeChars_def)

lemma sanitize_safe: "safeChars (sanitize c)"
  by (simp add: sanitize_def safeChars_underscore)

lemma sanitize_fixed: "safeChars c \<Longrightarrow> sanitize c = c"
  by (simp add: sanitize_def)

section \<open>Facts about the parser\<close>

lemma sanitize_at_Suc:
  "sanitize_at buf off (Suc n) =
     (let b = sanitize_at buf off n
      in if safeChars (b ! (off + n)) then b else b[off + n := CHR ''_''])"
  by (simp add: sanitize_at_def)

text \<open>The sanitizing loop over the first \<open>n\<close> bytes of a buffer, as a whole.\<close>

lemma sanitize_at_prefix:
  "n \<le> length buf \<Longrightarrow> sanitize_at buf 0 n = map sanitize (take n buf) @ drop n buf"
proof (induction n)
  case 0
  then show ?case by (simp add: sanitize_at_def)
next
  case (Suc n)
  then have n: "n < length buf" by simp
  let ?p = "map sanitize (take n buf)"
  have ih: "sanitize_at buf 0 n = ?p @ drop n buf"
    using Suc by simp
  have len: "length ?p = n" using n by simp
  have dr: "drop n buf = buf ! n # drop (Suc n) buf"
    using n by (simp add: Cons_nth_drop_Suc)
  have at: "(?p @ drop n buf) ! n = buf ! n"
    using len dr by (simp add: nth_append)
  have upd: "(?p @ drop n buf)[n := c] = ?p @ c # drop (Suc n) buf" for c
    using len dr by (simp add: list_update_append)
  have tk: "map sanitize (take (Suc n) buf) = ?p @ [sanitize (buf ! n)]"
    using n by (simp add: take_Suc_conv_app_nth)
  have step: "sanitize_at buf 0 (Suc n) = ?p @ sanitize (buf ! n) # drop (Suc n) buf"
  proof (cases "safeChars (buf ! n)")
    case True
    have "sanitize_at buf 0 (Suc n) = ?p @ drop n buf"
      by (simp add: sanitize_at_Suc ih at True)
    also have "\<dots> = ?p @ sanitize (buf ! n) # drop (Suc n) buf"
      by (subst dr) (simp add: sanitize_fixed True)
    finally show ?thesis .
  next
    case False
    have "sanitize_at buf 0 (Suc n) = (?p @ drop n buf)[n := CHR ''_'']"
      by (simp add: sanitize_at_Suc ih at False)
    also have "\<dots> = ?p @ sanitize (buf ! n) # drop (Suc n) buf"
      by (simp only: upd) (simp add: sanitize_def False)
    finally show ?thesis .
  qed
  show ?case
    by (simp only: step tk) simp
qed

text \<open>
  C7: the allow-set filter is idempotent: filtering a byte string twice gives the same
  string as filtering it once. This holds of the filter on a string and of the loop of
  \<^verbatim>\<open>parseLine\<close> that applies it in place, which computes that filter.
\<close>

theorem sanitize_idempotent:
  "map sanitize (map sanitize xs) = map sanitize xs
   \<and> sanitize_at xs 0 (length xs) = map sanitize xs
   \<and> sanitize_at (sanitize_at xs 0 (length xs)) 0 (length xs) = sanitize_at xs 0 (length xs)"
proof -
  have twice: "map sanitize (map sanitize ys) = map sanitize ys" for ys
    by (induction ys) (simp_all add: sanitize_fixed sanitize_safe)
  have loop: "sanitize_at ys 0 (length ys) = map sanitize ys" for ys
    using sanitize_at_prefix [of "length ys" ys] by simp
  have "sanitize_at (map sanitize xs) 0 (length (map sanitize xs))
          = map sanitize (map sanitize xs)"
    by (rule loop)
  then have "sanitize_at (map sanitize xs) 0 (length xs) = map sanitize xs"
    by (simp only: twice length_map)
  then show ?thesis
    by (simp only: twice loop)
qed

lemma drop_sanitized_prefix:
  "k \<le> j \<Longrightarrow> k \<le> length xs \<Longrightarrow> drop j (map f (take k xs) @ drop k xs) = drop j xs"
  by simp

text \<open>The first piece of a split starts where the split starts and ends at the first separator.\<close>

lemma split_from_hd:
  "start \<le> pos \<Longrightarrow>
   \<exists>rest. split_from sep start pos xs =
     (start, pos - start + length (takeWhile (\<lambda>c. c \<noteq> sep) xs)) # rest"
proof (induction xs arbitrary: pos)
  case Nil
  then show ?case by simp
next
  case (Cons c cs)
  show ?case
  proof (cases "c = sep")
    case True
    then show ?thesis by simp
  next
    case False
    from Cons.prems have "start \<le> Suc pos" by simp
    from Cons.IH [OF this] obtain rest where
      "split_from sep start (Suc pos) cs =
         (start, Suc pos - start + length (takeWhile (\<lambda>c. c \<noteq> sep) cs)) # rest"
      by blast
    with False Cons.prems show ?thesis by (simp add: Suc_diff_le)
  qed
qed

lemma bytes_Split_first:
  "\<exists>rest. bytes_Split line (0, i) sep =
     (0, length (takeWhile (\<lambda>c. c \<noteq> sep) (take i line))) # rest"
  using split_from_hd [of 0 0 sep "take i line"]
  by (simp add: bytes_Split_def slice_bytes_def)

lemma takeWhile_take_le: "length (takeWhile P (take i xs)) \<le> min i (length xs)"
proof -
  have "length (takeWhile P (take i xs)) \<le> length (take i xs)"
    by (rule length_takeWhile_le)
  then show ?thesis by simp
qed

lemma idLen_le: "idLen line \<le> length line"
  using takeWhile_take_le [of "\<lambda>c. c \<noteq> CHR '' ''" _ line] by (simp add: idLen_def)

text \<open>What a successful \<^verbatim>\<open>parseLine\<close> returns, whatever the line.\<close>

lemma parseLine_Inr:
  assumes ok: "parseLine e ts src line = (Inr li, b)"
  shows "0 < idLen line \<and> idLen line \<le> 50
       \<and> DeviceID li = take (idLen line) line
       \<and> DeviceIDSafe li = map sanitize (take (idLen line) line)
       \<and> b = map sanitize (take (idLen line) line) @ drop (idLen line) line
       \<and> Msg li = drop (Suc (length (takeWhile (\<lambda>c. c \<noteq> CHR ''|'') line))) line
       \<and> LevelChar li = levelChar (Level li)
       \<and> Src li = src \<and> Timestamp li = ts"
proof -
  define i where "i = length (takeWhile (\<lambda>c. c \<noteq> CHR ''|'') line)"
  define k where "k = idLen line"
  have k_le_i: "k \<le> i" and k_le: "k \<le> length line"
    using takeWhile_take_le [of "\<lambda>c. c \<noteq> CHR '' ''" i line]
    by (simp_all add: k_def idLen_def i_def)
  obtain rest where sp: "bytes_Split line (0, i) CHR '' '' = (0, k) # rest"
    using bytes_Split_first [of line i "CHR '' ''"] by (auto simp: k_def idLen_def i_def)
  have san: "sanitize_at line 0 k = map sanitize (take k line) @ drop k line"
    by (rule sanitize_at_prefix [OF k_le])
  have found: "i < length line"
    using ok by (auto simp: parseLine_def bytes_Cut_def Let_def i_def split: if_splits)
  then have cut: "bytes_Cut line CHR ''|'' = ((0, i), (Suc i, length line - Suc i), True)"
    by (simp add: bytes_Cut_def Let_def i_def)
  have msg: "slice_bytes (map sanitize (take k line) @ drop k line) (Suc i, length line - Suc i)
               = drop (Suc i) line"
    using k_le_i k_le by (simp add: slice_bytes_def)
  have ids: "slice_bytes (map sanitize (take k line) @ drop k line) (0, k)
               = map sanitize (take k line)"
    using k_le by (simp add: slice_bytes_def)
  have idr: "slice_bytes line (0, k) = take k line"
    by (simp add: slice_bytes_def)
  from ok show ?thesis
    unfolding parseLine_def cut
    by (auto simp: sp san msg ids idr Let_def k_def [symmetric] i_def [symmetric]
             split: if_splits sum.splits)
qed

lemma parseLine_Inl:
  assumes "parseLine e ts src line = (Inl err, b)"
  shows "b = line"
  using assms
  by (auto simp: parseLine_def Let_def split: prod.splits if_splits sum.splits)



section \<open>The level character\<close>




section \<open>The line buffer\<close>

lemma parse_my_dev:
  "parseLine example_env example_time ''192.0.2.1:4000'' ''my*dev! 42 12.5 3 2|hello world'' =
     (Inr \<lparr>Src = ''192.0.2.1:4000'', Timestamp = example_time, DeviceID = ''my*dev!'',
           SeqNum = 42, UptimeMs = 12500, FD = 3, Level = 2, Msg = ''hello world'',
           TimestampStr = [], DeviceIDSafe = ''my_dev_'', Year = ''2022'', Month = ''01'',
           Day = ''02'', LevelChar = ''I''\<rparr>,
      ''my_dev_ 42 12.5 3 2|hello world'')"
  by (simp add: ev split del: if_split)

text \<open>
  C8 as stated fails: parsing the line \<open>my*dev! 42 12.5 3 2|hello world\<close> leaves
  \<open>my_dev_ 42 12.5 3 2|hello world\<close> in the buffer that was passed in.
\<close>

theorem parse_changes_buffer:
  "snd (parseLine example_env example_time ''192.0.2.1:4000'' ''my*dev! 42 12.5 3 2|hello world'')
     \<noteq> ''my*dev! 42 12.5 3 2|hello world''"
  by (simp add: parse_my_dev)

text \<open>
  C8, amended: \<^verbatim>\<open>parseLine\<close> does no I/O and touches no shared state other than the line
  buffer it is given. When it fails the buffer is unchanged. When it succeeds, the
  device id is the first field of the line (the bytes before the first space, \<open>idLen\<close>
  of them, at least one), and the buffer holds the line with every byte of that field
  outside the allow-set replaced by \<open>_\<close>; all other bytes are unchanged.
\<close>

theorem parse_buffer_effect:
  assumes "parseLine e ts src line = (r, b)"
  shows "case r of
           Inl err \<Rightarrow> b = line
         | Inr li \<Rightarrow>
             0 < idLen line
           \<and> DeviceID li = take (idLen line) line
           \<and> b = map sanitize (take (idLen line) line) @ drop (idLen line) line"
proof (cases r)
  case (Inl err)
  with assms show ?thesis by (simp add: parseLine_Inl)
next
  case (Inr li)
  with assms have ok: "parseLine e ts src line = (Inr li, b)" by simp
  have "0 < idLen line"
    and "DeviceID li = take (idLen line) line"
    and "b = map sanitize (take (idLen line) line) @ drop (idLen line) line"
    using parseLine_Inr [OF ok] by simp_all
  then show ?thesis
    using Inr by simp
qed

theorem parse_buffer_effect_witness:
  "idLen ''my*dev! 42 12.5 3 2|hello world'' = 7
   \<and> map_sum id DeviceID
        (fst (parseLine example_env example_time ''192.0.2.1:4000''
                ''my*dev! 42 12.5 3 2|hello world''))
       = Inr (take 7 ''my*dev! 42 12.5 3 2|hello world'')
   \<and> snd (parseLine example_env example_time ''192.0.2.1:4000''
             ''my*dev! 42 12.5 3 2|hello world'')
       = map sanitize (take 7 ''my*dev! 42 12.5 3 2|hello world'')
           @ drop 7 ''my*dev! 42 12.5 3 2|hello world''
   \<and> snd (parseLine example_env example_time ''192.0.2.1:4000''
             ''my*dev! 42 12.5 3 2|hello world'')
       = ''my_dev_ 42 12.5 3 2|hello world''"
proof -
  have n: "idLen ''my*dev! 42 12.5 3 2|hello world'' = 7"
    by (simp add: idLen_def)
  have "DeviceID \<lparr>Src = ''192.0.2.1:4000'', Timestamp = example_time, DeviceID = ''my*dev!'',
           SeqNum = 42, UptimeMs = 12500, FD = 3, Level = 2, Msg = ''hello world'',
           TimestampStr = [], DeviceIDSafe = ''my_dev_'', Year = ''2022'', Month = ''01'',
           Day = ''02'', LevelChar = ''I''\<rparr>
          = take (idLen ''my*dev! 42 12.5 3 2|hello world'') ''my*dev! 42 12.5 3 2|hello world''
        \<and> ''my_dev_ 42 12.5 3 2|hello world''
          = map sanitize (take (idLen ''my*dev! 42 12.5 3 2|hello world'')
                            ''my*dev! 42 12.5 3 2|hello world'')
              @ drop (idLen ''my*dev! 42 12.5 3 2|hello world'') ''my*dev! 42 12.5 3 2|hello world''"
    using parse_buffer_effect [OF parse_my_dev] by simp
  then show ?thesis
    unfolding n by (simp add: parse_my_dev sanitize_def safeChars_def byte_def)
qed

section \<open>Decimal numerals and \<^verbatim>\<open>ParseUint\<close>\<close>

lemma digitChar_cases:
  "d < 10 \<Longrightarrow> d = 0 \<or> d = 1 \<or> d = 2 \<or> d = 3 \<or> d = 4 \<or> d = 5 \<or> d = 6 \<or> d = 7 \<or> d = 8 \<or> d = (9::nat)"
  by arith

lemma digitChar_props:
  assumes "d < 10"
  shows "isDigit (digitChar d)" and "digitVal (digitChar d) = d"
  using digitChar_cases [OF assms]
  by (auto simp: isDigit_def digitVal_def digitChar_def byte_def)

lemma isDigit_not_sep: "isDigit c \<Longrightarrow> c \<noteq> CHR '' '' \<and> c \<noteq> CHR ''|''"
  by (auto simp: isDigit_def byte_def)

lemma dec_digits: "c \<in> set (dec n) \<Longrightarrow> isDigit c"
proof (induction n arbitrary: c rule: dec.induct)
  case (1 n)
  show ?case
  proof (cases "n < 10")
    case True
    with "1.prems" show ?thesis
      by (simp add: dec.simps [of n] digitChar_props)
  next
    case False
    with "1.prems" "1.IH" show ?thesis
      by (auto simp: dec.simps [of n] digitChar_props)
  qed
qed

lemma dec_no_sep: "CHR '' '' \<notin> set (dec n)" "CHR ''|'' \<notin> set (dec n)"
  using dec_digits isDigit_not_sep by blast+

lemma dec_nonempty: "dec n \<noteq> []"
  by (subst dec.simps) simp

text \<open>The value of a digit string read from the accumulator \<open>a\<close>.\<close>

lemma decval_ge: "a \<le> foldl (\<lambda>a c. a * 10 + digitVal c) a ds"
proof (induction ds arbitrary: a)
  case Nil
  show ?case by simp
next
  case (Cons c cs)
  have "a \<le> a * 10 + digitVal c" by simp
  also have "\<dots> \<le> foldl (\<lambda>a c. a * 10 + digitVal c) (a * 10 + digitVal c) cs"
    by (rule Cons.IH)
  finally show ?case by simp
qed

lemma dec_value: "foldl (\<lambda>a c. a * 10 + digitVal c) 0 (dec n) = n"
proof (induction n rule: dec.induct)
  case (1 n)
  show ?case
  proof (cases "n < 10")
    case True
    then show ?thesis by (simp add: dec.simps [of n] digitChar_props)
  next
    case False
    with "1.IH" show ?thesis
      by (simp add: dec.simps [of n] digitChar_props)
  qed
qed

lemma parseUint_loop_digits:
  assumes "\<And>c. c \<in> set ds \<Longrightarrow> isDigit c"
    and "foldl (\<lambda>a c. a * 10 + digitVal c) n ds \<le> maxVal"
    and "maxVal < 2 ^ 64"
  shows "parseUint_loop maxVal n ds = Inr (foldl (\<lambda>a c. a * 10 + digitVal c) n ds)"
  using assms
proof (induction ds arbitrary: n)
  case Nil
  show ?case by simp
next
  case (Cons c cs)
  let ?n1 = "n * 10 + digitVal c"
  have dig: "isDigit c" using Cons.prems(1) by simp
  have "?n1 \<le> foldl (\<lambda>a c. a * 10 + digitVal c) ?n1 cs" by (rule decval_ge)
  also have "\<dots> \<le> maxVal" using Cons.prems(2) by simp
  finally have n1: "?n1 \<le> maxVal" .
  then have small: "?n1 < 2 ^ 64" using Cons.prems(3) by simp
  then have n10: "n * 10 < 2 ^ 64" by simp
  have cutoff: "\<not> maxUint64 div 10 + 1 \<le> n"
    using n10 by (simp add: maxUint64_def)
  have rec: "parseUint_loop maxVal ?n1 cs = Inr (foldl (\<lambda>a c. a * 10 + digitVal c) ?n1 cs)"
    using Cons.prems by (intro Cons.IH) simp_all
  have m1: "n * 10 mod 18446744073709551616 = n * 10" using n10 by simp
  have m2: "?n1 mod 18446744073709551616 = ?n1" using small by simp
  show ?case
    using dig cutoff n1 rec by (simp add: Let_def m1 m2)
qed

lemma ParseUint_dec:
  assumes "n < 2 ^ b" and "b \<le> 64"
  shows "ParseUint (dec n) b = Inr n"
proof -
  have "(2::nat) ^ b \<le> 2 ^ 64" using assms(2) by (intro power_increasing) simp_all
  moreover have "0 < (2::nat) ^ b" by simp
  ultimately have max: "(2::nat) ^ b - 1 < 2 ^ 64" by linarith
  have "parseUint_loop (2 ^ b - 1) 0 (dec n) = Inr (foldl (\<lambda>a c. a * 10 + digitVal c) 0 (dec n))"
    using assms(1) max by (intro parseUint_loop_digits) (simp_all add: dec_digits dec_value)
  then show ?thesis
    by (simp add: ParseUint_def dec_nonempty dec_value)
qed

section \<open>Splitting a header into its fields\<close>

lemma slice_bytes_mid: "slice_bytes (p @ x @ q) (length p, length x) = x"
  by (simp add: slice_bytes_def)

text \<open>The slices that \<^verbatim>\<open>bytes.Split\<close> returns hold the pieces between the separators.\<close>

lemma split_from_elems:
  "map (slice_bytes (p @ cur @ xs @ post)) (split_from sep (length p) (length p + length cur) xs)
     = split_elems sep cur xs"
proof (induction xs arbitrary: p cur)
  case Nil
  show ?case using slice_bytes_mid [of p cur post] by simp
next
  case (Cons c cs)
  show ?case
  proof (cases "c = sep")
    case True
    have "map (slice_bytes ((p @ cur @ [c]) @ [] @ cs @ post))
            (split_from sep (length (p @ cur @ [c])) (length (p @ cur @ [c]) + length ([]::string)) cs)
          = split_elems sep [] cs"
      by (rule Cons.IH)
    then have rest: "map (slice_bytes (p @ cur @ (c # cs) @ post))
            (split_from sep (Suc (length p + length cur)) (Suc (length p + length cur)) cs)
          = split_elems sep [] cs"
      by simp
    have first: "slice_bytes (p @ cur @ (c # cs) @ post) (length p, length cur) = cur"
      using slice_bytes_mid [of p cur "(c # cs) @ post"] by simp
    show ?thesis using True rest first by simp
  next
    case False
    have "map (slice_bytes (p @ (cur @ [c]) @ cs @ post))
            (split_from sep (length p) (length p + length (cur @ [c])) cs)
          = split_elems sep (cur @ [c]) cs"
      by (rule Cons.IH)
    then show ?thesis using False by simp
  qed
qed

lemma split_elems_last: "sep \<notin> set xs \<Longrightarrow> split_elems sep cur xs = [cur @ xs]"
  by (induction xs arbitrary: cur) auto

lemma split_elems_field:
  "sep \<notin> set xs \<Longrightarrow> split_elems sep cur (xs @ sep # ys) = (cur @ xs) # split_elems sep [] ys"
  by (induction xs arbitrary: cur) auto

lemma bytes_Split_header:
  "map (slice_bytes (h @ post)) (bytes_Split (h @ post) (0, length h) sep) = split_elems sep [] h"
  using split_from_elems [of "[]" "[]" h post sep]
  by (simp add: bytes_Split_def slice_bytes_def)

section \<open>Valid records\<close>

lemma takeWhile_until:
  "sep \<notin> set h \<Longrightarrow> takeWhile (\<lambda>c. c \<noteq> sep) (h @ sep # m) = h"
  by (induction h) auto

lemma header_fields:
  assumes "sp \<notin> set a" "sp \<notin> set b" "sp \<notin> set c" "sp \<notin> set d" "sp \<notin> set x"
  shows "split_elems sp [] (a @ sp # b @ sp # c @ sp # d @ sp # x) = [a, b, c, d, x]"
  using assms by (simp add: split_elems_field split_elems_last)

text \<open>\<open>truncMag\<close> is the truncation of the value of a non-negative binary64.\<close>

lemma truncMag_floor: "int (truncMag m e) = \<lfloor>real m * 2 powr real_of_int e\<rfloor>"
proof (cases "0 \<le> e")
  case True
  then have "2 powr real_of_int e = 2 ^ nat e"
    by (simp add: powr_realpow [symmetric])
  then have "real m * 2 powr real_of_int e = real (m * 2 ^ nat e)"
    by simp
  then show ?thesis
    using True by (simp add: truncMag_def del: of_nat_mult of_nat_power)
next
  case False
  then have "2 powr real_of_int e = 1 / 2 ^ nat (- e)"
    by (simp add: powr_realpow [symmetric] powr_minus_divide [symmetric])
  then have "real m * 2 powr real_of_int e = real m / real (2 ^ nat (- e))"
    by simp
  then show ?thesis
    using False by (simp add: truncMag_def floor_divide_of_nat_eq del: of_nat_power)
qed

lemma parseFloat_12_5: "ParseFloat ''12.5'' = Inr (Finite False 7036874417766400 (- 49))"
  by (simp add: ev split del: if_split)

lemma parseFloat_2_pow_minus_10:
  "ParseFloat ''0.0009765625'' = Inr (Finite False 4503599627370496 (- 62))"
  by (simp add: ev split del: if_split)

lemma parseFloat_minus_1_5: "ParseFloat ''-1.5'' = Inr (Finite True 6755399441055744 (- 52))"
  by (simp add: ev split del: if_split)

text \<open>
  A record with well-formed fields parses: the fields are found by the cut at \<open>|\<close> and
  the split at the spaces, the three integers are read back from their decimal
  numerals, and the uptime is the product of the value of \<^verbatim>\<open>ParseFloat\<close> with 1000,
  converted to \<^verbatim>\<open>uint64\<close>.
\<close>

lemma parseLine_valid_record:
  assumes dev: "0 < length dev" "length dev \<le> 50"
      "CHR '' '' \<notin> set dev" "CHR ''|'' \<notin> set dev"
    and nums: "sq < 2 ^ 64" "f < 2 ^ 32" "l < 2 ^ 32"
    and up: "ParseFloat up = Inr v" "CHR '' '' \<notin> set up" "CHR ''|'' \<notin> set up"
  shows "parseLine e ts src
           (dev @ '' '' @ dec sq @ '' '' @ up @ '' '' @ dec f @ '' '' @ dec l @ ''|'' @ msg) =
         (Inr \<lparr>Src = src, Timestamp = ts, DeviceID = dev,
               SeqNum = of_nat sq,
               UptimeMs = uint64_of_f64 (uint64_oor e) (f64_mul v (Finite False 1000 0)),
               FD = of_nat f, Level = of_nat l, Msg = msg,
               TimestampStr = FormatTimestamp e ts,
               DeviceIDSafe = map sanitize dev,
               Year = take 4 (Format_20060102 ts),
               Month = take 2 (drop 4 (Format_20060102 ts)),
               Day = take 2 (drop 6 (Format_20060102 ts)),
               LevelChar = levelChar (of_nat l)\<rparr>,
          map sanitize dev @ '' '' @ dec sq @ '' '' @ up @ '' '' @ dec f @ '' '' @ dec l @ ''|'' @ msg)"
proof -
  define h where "h = dev @ CHR '' '' # dec sq @ CHR '' '' # up @ CHR '' '' # dec f @ CHR '' '' # dec l"
  define line where "line = h @ CHR ''|'' # msg"
  define parts where "parts = bytes_Split line (0, length h) CHR '' ''"
  have line_eq: "dev @ '' '' @ dec sq @ '' '' @ up @ '' '' @ dec f @ '' '' @ dec l @ ''|'' @ msg = line"
    by (simp add: line_def h_def)
  have nobar: "CHR ''|'' \<notin> set h"
    using dev(4) up(3) dec_no_sep(2) by (simp add: h_def)
  have i: "length (takeWhile (\<lambda>c. c \<noteq> CHR ''|'') line) = length h"
    using takeWhile_until [OF nobar] by (simp add: line_def)
  have cut: "bytes_Cut line CHR ''|'' = ((0, length h), (Suc (length h), length msg), True)"
    by (simp add: bytes_Cut_def i Let_def) (simp add: line_def)
  have vals: "map (slice_bytes line) parts = [dev, dec sq, up, dec f, dec l]"
    unfolding parts_def line_def bytes_Split_header
    unfolding h_def
    by (rule header_fields) (use dev(3) up(2) dec_no_sep(1) in simp_all)
  then have len: "length parts = 5"
    by (metis length_map length_Cons list.size(3) numeral_eq_Suc One_nat_def pred_numeral_simps(3) numeral_2_eq_2 numeral_3_eq_3 Suc_numeral semiring_norm(2,8))
  have nth: "slice_bytes line (parts ! k) = [dev, dec sq, up, dec f, dec l] ! k" if "k < 5" for k
    using that len vals by (metis nth_map)
  have th: "take (length h) line = h"
    by (simp add: line_def)
  have tw: "takeWhile (\<lambda>c. c \<noteq> CHR '' '') (take (length h) line) = dev"
    unfolding th unfolding h_def by (rule takeWhile_until [OF dev(3)])
  obtain rest where "parts = (0, length dev) # rest"
    using bytes_Split_first [of line "length h" "CHR '' ''"] by (auto simp: parts_def tw)
  then have p0: "parts ! 0 = (0, length dev)" by simp
  have s1: "slice_bytes line (parts ! Suc 0) = dec sq"
    and s2: "slice_bytes line (parts ! 2) = up"
    and s3: "slice_bytes line (parts ! 3) = dec f"
    and s4: "slice_bytes line (parts ! 4) = dec l"
    using nth [of 1] nth [of 2] nth [of 3] nth [of 4] by simp_all
  have pu: "ParseUint (dec sq) 64 = Inr sq" "ParseUint (dec f) 32 = Inr f"
      "ParseUint (dec l) 32 = Inr l"
    using nums by (simp_all add: ParseUint_dec)
  have s0: "slice_bytes line (0, length dev) = dev"
    by (simp add: slice_bytes_def line_def h_def)
  have line_dev: "line = dev @ drop (length dev) line"
    by (simp add: line_def h_def)
  have san: "sanitize_at line 0 (length dev) = map sanitize dev @ drop (length dev) line"
    using sanitize_at_prefix [of "length dev" line] by (simp add: line_def h_def)
  have ids: "slice_bytes (map sanitize dev @ drop (length dev) line) (0, length dev) = map sanitize dev"
    by (simp add: slice_bytes_def)
  have td: "take (length dev) line = dev"
    by (simp add: line_def h_def)
  have dl: "drop (Suc (length h)) line = msg"
    by (simp add: line_def)
  have "drop (Suc (length h)) (map sanitize (take (length dev) line) @ drop (length dev) line)
          = drop (Suc (length h)) line"
    by (rule drop_sanitized_prefix) (simp_all add: line_def h_def)
  then have m0: "drop (Suc (length h)) (map sanitize dev @ drop (length dev) line) = msg"
    unfolding td dl .
  have m: "slice_bytes (map sanitize dev @ drop (length dev) line) (Suc (length h), length msg) = msg"
    unfolding slice_bytes_def fst_conv snd_conv m0 by simp
  have out: "map sanitize dev @ drop (length dev) line
      = map sanitize dev @ '' '' @ dec sq @ '' '' @ up @ '' '' @ dec f @ '' '' @ dec l @ ''|'' @ msg"
    by (simp add: line_def h_def)
  have "parseLine e ts src line =
         (Inr \<lparr>Src = src, Timestamp = ts, DeviceID = dev,
               SeqNum = of_nat sq,
               UptimeMs = uint64_of_f64 (uint64_oor e) (f64_mul v (Finite False 1000 0)),
               FD = of_nat f, Level = of_nat l, Msg = msg,
               TimestampStr = FormatTimestamp e ts,
               DeviceIDSafe = map sanitize dev,
               Year = take 4 (Format_20060102 ts),
               Month = take 2 (drop 4 (Format_20060102 ts)),
               Day = take 2 (drop 6 (Format_20060102 ts)),
               LevelChar = levelChar (of_nat l)\<rparr>,
          map sanitize dev @ drop (length dev) line)"
    unfolding parseLine_def cut
    using dev(1,2) up(1)
    by (simp add: parts_def [symmetric] len p0 s0 s1 s2 s3 s4 san ids m pu Let_def)
  then show "parseLine e ts src
           (dev @ '' '' @ dec sq @ '' '' @ up @ '' '' @ dec f @ '' '' @ dec l @ ''|'' @ msg) =
         (Inr \<lparr>Src = src, Timestamp = ts, DeviceID = dev,
               SeqNum = of_nat sq,
               UptimeMs = uint64_of_f64 (uint64_oor e) (f64_mul v (Finite False 1000 0)),
               FD = of_nat f, Level = of_nat l, Msg = msg,
               TimestampStr = FormatTimestamp e ts,
               DeviceIDSafe = map sanitize dev,
               Year = take 4 (Format_20060102 ts),
               Month = take 2 (drop 4 (Format_20060102 ts)),
               Day = take 2 (drop 6 (Format_20060102 ts)),
               LevelChar = levelChar (of_nat l)\<rparr>,
          map sanitize dev @ '' '' @ dec sq @ '' '' @ up @ '' '' @ dec f @ '' '' @ dec l @ ''|'' @ msg)"
    unfolding line_eq out .
qed

section \<open>Uptimes that are binary64 numbers\<close>

text \<open>
  The number of bits of a positive number, and the exponent that \<open>floorLog2\<close> finds: a
  power of two that is not above the fraction.
\<close>

lemma bitLength_bounds: "0 < n \<Longrightarrow> 2 ^ (bitLength n - 1) \<le> n \<and> n < 2 ^ bitLength n"
proof (induction n rule: bitLength.induct)
  case (1 n)
  show ?case
  proof (cases "n div 2 = 0")
    case True
    with 1(2) have "n = 1" by presburger
    then show ?thesis by (simp add: bitLength.simps)
  next
    case False
    then have ih: "2 ^ (bitLength (n div 2) - 1) \<le> n div 2 \<and> n div 2 < 2 ^ bitLength (n div 2)"
      using 1 by simp
    have bl: "bitLength n = Suc (bitLength (n div 2))"
      using 1(2) by (simp add: bitLength.simps [of n])
    obtain k where k: "bitLength (n div 2) = Suc k"
      using False by (simp add: bitLength.simps [of "n div 2"])
    have "2 * 2 ^ k \<le> 2 * (n div 2)" using ih k by simp
    also have "\<dots> \<le> n" by simp
    finally have lo: "2 * 2 ^ k \<le> n" .
    have "n < 2 * (n div 2) + 2" by presburger
    also have "\<dots> \<le> 2 * 2 ^ Suc k" using ih k by simp
    finally have hi: "n < 2 * 2 ^ Suc k" .
    show ?thesis
      using lo hi bl k by simp
  qed
qed

lemma floorLog2_lower:
  assumes "0 < num" "0 < den"
  shows "if 0 \<le> floorLog2 num den then den * 2 ^ nat (floorLog2 num den) \<le> num
         else den \<le> num * 2 ^ nat (- floorLog2 num den)"
proof -
  define a where "a = bitLength num"
  define b where "b = bitLength den"
  have an: "2 ^ (a - 1) \<le> num" and bd: "den < 2 ^ b"
    using bitLength_bounds [OF assms(1)] bitLength_bounds [OF assms(2)] by (simp_all add: a_def b_def)
  have apos: "0 < a"
    using assms(1) by (simp add: a_def bitLength.simps [of num])
  show ?thesis
  proof (cases "b \<le> a")
    case True
    then have e0: "int a - int b \<ge> 0" "nat (int a - int b) = a - b" by simp_all
    show ?thesis
    proof (cases "den * 2 ^ (a - b) \<le> num")
      case ge: True
      then have "floorLog2 num den = int a - int b"
        using e0 by (simp add: floorLog2_def Let_def a_def b_def)
      then show ?thesis using e0 ge by simp
    next
      case nge: False
      then have fl: "floorLog2 num den = int a - int b - 1"
        using e0 by (simp add: floorLog2_def Let_def a_def b_def)
      show ?thesis
      proof (cases "a = b")
        case True
        have "den < 2 ^ a" using bd True by simp
        also have "(2::nat) ^ a = 2 * 2 ^ (a - 1)"
          using apos by (cases a) simp_all
        also have "\<dots> \<le> 2 * num" using an by simp
        finally have "den \<le> num * 2" by simp
        then show ?thesis using fl True by simp
      next
        case False
        then have lt: "b < a" using True by simp
        then have n: "int a - int b - 1 \<ge> 0" "nat (int a - int b - 1) = a - b - 1" by simp_all
        have "den * 2 ^ (a - b - 1) \<le> 2 ^ b * 2 ^ (a - b - 1)"
          using bd by simp
        also have "\<dots> = 2 ^ (b + (a - b - 1))" by (simp add: power_add)
        also have "b + (a - b - 1) = a - 1" using lt by simp
        finally have "den * 2 ^ (a - b - 1) \<le> num" using an by simp
        then show ?thesis using fl n by simp
      qed
    qed
  next
    case False
    then have lt: "a < b" by simp
    then have e0: "\<not> int a - int b \<ge> 0" "nat (- (int a - int b)) = b - a" by simp_all
    show ?thesis
    proof (cases "den \<le> num * 2 ^ (b - a)")
      case ge: True
      then have "floorLog2 num den = int a - int b"
        using e0 by (simp add: floorLog2_def Let_def a_def b_def)
      then show ?thesis using e0 ge by simp
    next
      case nge: False
      then have fl: "floorLog2 num den = int a - int b - 1"
        using e0 by (simp add: floorLog2_def Let_def a_def b_def)
      have n: "\<not> int a - int b - 1 \<ge> 0" "nat (- (int a - int b - 1)) = b - a + 1"
        using lt by simp_all
      have "den \<le> 2 ^ b" using bd by simp
      also have "b = (a - 1) + (b - a + 1)" using lt apos by simp
      also have "(2::nat) ^ ((a - 1) + (b - a + 1)) = 2 ^ (a - 1) * 2 ^ (b - a + 1)"
        by (simp only: power_add)
      also have "\<dots> \<le> num * 2 ^ (b - a + 1)" using an by simp
      finally have "den \<le> num * 2 ^ (b - a + 1)" .
      then show ?thesis using fl n by simp
    qed
  qed
qed

lemma floorLog2_exact_bound:
  assumes eq: "num * 2 ^ j = m * den" and den: "0 < den" and m: "0 < m" "m < 2 ^ k"
  shows "floorLog2 num den + int j < int k"
proof -
  have num: "0 < num"
    using eq den m(1) by (cases "num = 0") simp_all
  note lo = floorLog2_lower [OF num den]
  define e where "e = floorLog2 num den"
  show ?thesis
  proof (cases "0 \<le> e")
    case True
    then have "den * 2 ^ nat e \<le> num" using lo by (simp add: e_def)
    then have "den * 2 ^ nat e * 2 ^ j \<le> num * 2 ^ j" by simp
    then have "den * 2 ^ (nat e + j) \<le> den * m" by (simp add: eq power_add mult.commute mult.left_commute)
    then have "2 ^ (nat e + j) \<le> m" using den by simp
    from this m(2) have "(2::nat) ^ (nat e + j) < 2 ^ k" by (rule le_less_trans)
    then have "nat e + j < k" by simp
    then show ?thesis using True by (simp add: e_def [symmetric])
  next
    case False
    then have "den \<le> num * 2 ^ nat (- e)" using lo by (simp add: e_def)
    then have "den * 2 ^ j \<le> num * 2 ^ j * 2 ^ nat (- e)" by (simp add: mult.commute mult.left_commute)
    then have "den * 2 ^ j \<le> den * (m * 2 ^ nat (- e))" by (simp add: eq mult.commute mult.left_commute)
    then have "2 ^ j \<le> m * 2 ^ nat (- e)" using den by simp
    also have "\<dots> < 2 ^ k * 2 ^ nat (- e)" using m(2) by simp
    also have "\<dots> = 2 ^ (k + nat (- e))" by (simp add: power_add)
    finally have "j < k + nat (- e)" by simp
    then show ?thesis using False by (simp add: e_def [symmetric])
  qed
qed

text \<open>
  A fraction that is a binary64 number (\<open>m / 2^j\<close> with \<open>m\<close> below \<open>2^53\<close>) is not changed
  by the rounding, and its integer part is what the conversion to \<^verbatim>\<open>uint64\<close> keeps.
\<close>

lemma roundToF64_exact:
  assumes eq: "num * 2 ^ j = m * den" and den: "0 < den" and m: "0 < m" "m < 2 ^ 53"
    and j: "j \<le> 1074"
  shows "\<exists>t\<ge>j. roundToF64 neg num den = (Finite neg (m * 2 ^ (t - j)) (- int t), False)"
proof -
  have num: "num \<noteq> 0"
    using eq den m(1) by (cases "num = 0") simp_all
  define e where "e = floorLog2 num den"
  define s where "s = max e (- 1022) - 52"
  have "e + int j < 53"
    using floorLog2_exact_bound [OF eq den m] by (simp add: e_def)
  then have sle: "s \<le> - int j"
    using j by (simp add: s_def)
  define t where "t = nat (- s)"
  have t: "j \<le> t" "s = - int t"
    using sle by (simp_all add: t_def)
  have split: "2 ^ t = (2::nat) ^ j * 2 ^ (t - j)"
    using t(1) by (simp add: power_add [symmetric])
  define p where "p = (if s \<ge> 0 then num else num * 2 ^ nat (- s))"
  define q where "q = (if s \<ge> 0 then den * 2 ^ nat s else den)"
  have pq: "p = num * 2 ^ t" "q = den"
    using t(2) by (auto simp: p_def q_def t_def)
  have "p = (m * 2 ^ (t - j)) * q"
    unfolding pq split using eq by (simp add: mult.assoc [symmetric])
  then have dv: "p div q = m * 2 ^ (t - j)" "p mod q = 0"
    using den pq(2) by simp_all
  have "roundToF64 neg num den = (Finite neg (m * 2 ^ (t - j)) (- int t), False)"
    unfolding roundToF64_def Let_def e_def [symmetric] s_def [symmetric]
      p_def [symmetric] q_def [symmetric] dv
    using num den pq(2) t(2) by simp
  with t(1) show ?thesis by blast
qed

lemma truncMag_exact:
  assumes "j \<le> t"
  shows "truncMag (m * 2 ^ (t - j)) (- int t) = m div 2 ^ j"
proof (cases "t = 0")
  case True
  with assms show ?thesis by (simp add: truncMag_def)
next
  case False
  have "(2::nat) ^ t = 2 ^ (t - j) * 2 ^ j"
    using assms by (simp add: power_add [symmetric])
  then have "m * 2 ^ (t - j) div 2 ^ t = m div 2 ^ j"
    by simp
  then show ?thesis using False by (simp add: truncMag_def)
qed


lemma uptime_of_exact_rational:
  assumes eq: "num * 2 ^ j = m * den" and den: "0 < den" and m: "m * 1000 < 2 ^ 53"
    and j: "j \<le> 1074"
  shows "\<exists>v. roundToF64 False num den = (v, False)
           \<and> uint64_of_f64 oor (f64_mul v (Finite False 1000 0)) = of_nat (m * 1000 div 2 ^ j)"
proof (cases "m = 0")
  case True
  then have "num = 0" using eq by simp
  then have "roundToF64 False num den = (Finite False 0 0, False)"
    by (simp add: roundToF64_def)
  moreover have "uint64_of_f64 oor (f64_mul (Finite False 0 0) (Finite False 1000 0)) = 0"
    by (simp add: roundDyadic_def roundToF64_def truncMag_def)
  ultimately show ?thesis using True by simp
next
  case False
  then have mpos: "0 < m" by simp
  have m53: "m < 2 ^ 53" using m by simp
  obtain t where t: "j \<le> t"
    and v: "roundToF64 False num den = (Finite False (m * 2 ^ (t - j)) (- int t), False)"
    using roundToF64_exact [OF eq den mpos m53 j] by blast
  define M where "M = m * 2 ^ (t - j)"
  have split: "2 ^ t = (2::nat) ^ (t - j) * 2 ^ j"
    using t by (simp add: power_add [symmetric])
  have prod: "M * 1000 * 2 ^ j = (m * 1000) * 2 ^ t"
    unfolding M_def split by simp
  have "\<exists>t'\<ge>j. roundDyadic False (M * 1000) (- int t)
                  = Finite False (m * 1000 * 2 ^ (t' - j)) (- int t')"
  proof (cases "t = 0")
    case True
    then have "M * 1000 * 2 ^ j = (m * 1000) * 1" using prod by simp
    then obtain t' where "j \<le> t'"
      "roundToF64 False (M * 1000) 1 = (Finite False (m * 1000 * 2 ^ (t' - j)) (- int t'), False)"
      using roundToF64_exact [of "M * 1000" j "m * 1000" 1 False] mpos m j by auto
    then show ?thesis using True by (auto simp: roundDyadic_def)
  next
    case False
    obtain t' where "j \<le> t'"
      "roundToF64 False (M * 1000) (2 ^ t)
         = (Finite False (m * 1000 * 2 ^ (t' - j)) (- int t'), False)"
      using roundToF64_exact [of "M * 1000" j "m * 1000" "2 ^ t" False, OF prod] mpos m j by auto
    then show ?thesis using False by (auto simp: roundDyadic_def)
  qed
  then obtain t' where t': "j \<le> t'"
    and p: "roundDyadic False (M * 1000) (- int t) = Finite False (m * 1000 * 2 ^ (t' - j)) (- int t')"
    by blast
  have tr: "truncMag (m * 1000 * 2 ^ (t' - j)) (- int t') = m * 1000 div 2 ^ j"
    by (rule truncMag_exact [OF t'])
  have "m * 1000 div 2 ^ j \<le> m * 1000" by simp
  also have "\<dots> < 2 ^ 64" using m by (rule less_trans) simp
  finally have small: "m * 1000 div 2 ^ j < 2 ^ 64" .
  have "uint64_of_f64 oor (f64_mul (Finite False M (- int t)) (Finite False 1000 0))
          = of_nat (m * 1000 div 2 ^ j)"
    using small by (simp add: p tr)
  then show ?thesis using v by (simp add: M_def)
qed

text \<open>
  \<^verbatim>\<open>ParseFloat\<close> on digits, a point and digits: the text is not a special value and not
  hexadecimal, the mantissa loop reads all of it, and the value is the rounding of the
  number written.
\<close>

lemma digit_chars:
  assumes "isDigit c"
  shows "c \<noteq> CHR ''_''" "c \<noteq> CHR ''.''" "c \<noteq> CHR ''+''" "c \<noteq> CHR ''-''"
    "c \<noteq> CHR ''i''" "c \<noteq> CHR ''I''" "c \<noteq> CHR ''n''" "c \<noteq> CHR ''N''"
  using assms by (auto simp: isDigit_def byte_def)

lemma lower_digit:
  assumes "isDigit c"
  shows "lower c \<noteq> byte CHR ''x''"
proof -
  have "48 \<le> byte c \<and> byte c \<le> 57"
    using assms by (simp add: isDigit_def byte_def)
  then have "byte c = 48 \<or> byte c = 49 \<or> byte c = 50 \<or> byte c = 51 \<or> byte c = 52
           \<or> byte c = 53 \<or> byte c = 54 \<or> byte c = 55 \<or> byte c = 56 \<or> byte c = 57"
    by arith
  then show ?thesis
    by (auto simp: lower_def byte_def)
qed

lemma lower_point: "lower CHR ''.'' \<noteq> byte CHR ''x''"
  by (simp add: lower_def byte_def)

lemma foldl_digits_acc:
  "foldl (\<lambda>a c. a * 10 + digitVal c) a ds = a * 10 ^ length ds + digitsValue ds"
proof (induction ds arbitrary: a rule: rev_induct)
  case Nil
  show ?case by (simp add: digitsValue_def)
next
  case (snoc c cs)
  show ?case
    using snoc [of a] snoc [of 0]
    by (simp add: digitsValue_def algebra_simps)
qed

lemma readMantissa_digits:
  assumes "\<forall>c\<in>set ds. isDigit c"
  shows "readMantissa 10 sawdot sd mant nfrac us (ds @ rest) =
           readMantissa 10 sawdot (sd \<or> ds \<noteq> [])
             (foldl (\<lambda>a c. a * 10 + digitVal c) mant ds)
             (if sawdot then nfrac + length ds else nfrac) us rest"
  using assms
proof (induction ds arbitrary: sd mant nfrac)
  case Nil
  show ?case by simp
next
  case (Cons c cs)
  then have d: "isDigit c" and ds: "\<forall>c\<in>set cs. isDigit c" by simp_all
  show ?case
    using d digit_chars(1,2) [OF d] Cons.IH [OF ds] by simp
qed

lemma readMantissa_decimal:
  assumes "ip \<noteq> []" "\<forall>c\<in>set ip. isDigit c" "\<forall>c\<in>set fp. isDigit c"
  shows "readMantissa 10 False False 0 0 False (ip @ ''.'' @ fp) =
           (True, digitsValue ip * 10 ^ length fp + digitsValue fp, length fp, False, [])"
proof -
  have "readMantissa 10 False False 0 0 False (ip @ ''.'' @ fp) =
          readMantissa 10 False True (digitsValue ip) 0 False (''.'' @ fp)"
    using readMantissa_digits [OF assms(2), of False False 0 0 False "''.'' @ fp"] assms(1)
    by (simp add: digitsValue_def)
  also have "\<dots> = readMantissa 10 True True (digitsValue ip) 0 False (fp @ [])"
    by simp
  also have "\<dots> = readMantissa 10 True True
                     (foldl (\<lambda>a c. a * 10 + digitVal c) (digitsValue ip) fp) (0 + length fp) False []"
    using readMantissa_digits [OF assms(3), of True True "digitsValue ip" 0 False "[]"]
    by simp
  finally show ?thesis
    by (simp add: foldl_digits_acc)
qed

lemma not_hex_decimal:
  assumes "\<forall>c\<in>set s. isDigit c \<or> c = CHR ''.''"
  shows "(case s of a # b # _ # _ \<Rightarrow> a = CHR ''0'' \<and> lower b = byte CHR ''x'' | _ \<Rightarrow> False) = False"
proof (cases s)
  case Nil
  then show ?thesis by simp
next
  case (Cons a s1)
  show ?thesis
  proof (cases s1)
    case Nil
    with Cons show ?thesis by simp
  next
    case (Cons b s2)
    have "isDigit b \<or> b = CHR ''.''"
      using assms \<open>s = a # s1\<close> Cons by simp
    then have "lower b \<noteq> byte CHR ''x''"
      using lower_digit lower_point by blast
    then show ?thesis
      using \<open>s = a # s1\<close> Cons by (cases s2) simp_all
  qed
qed

lemma ParseFloat_decimal:
  assumes "ip \<noteq> []" "\<forall>c\<in>set ip. isDigit c" "\<forall>c\<in>set fp. isDigit c"
  shows "ParseFloat (ip @ ''.'' @ fp) =
           (case roundToF64 False (digitsValue ip * 10 ^ length fp + digitsValue fp)
                   (10 ^ length fp) of
              (v, ovf) \<Rightarrow> if ovf then Inl ErrRange else Inr v)"
proof -
  define s where "s = ip @ ''.'' @ fp"
  obtain c0 cs where ip: "ip = c0 # cs" using assms(1) by (cases ip) simp_all
  then have d0: "isDigit c0" using assms(2) by simp
  have s0: "s = c0 # (cs @ ''.'' @ fp)" by (simp add: s_def ip)
  have sp: "special s = None"
    using digit_chars [OF d0] by (simp add: special_def s0)
  have all: "\<forall>c\<in>set s. isDigit c \<or> c = CHR ''.''"
    using assms(2,3) by (auto simp: s_def)
  have hex: "(case s of a # b # _ # _ \<Rightarrow> a = CHR ''0'' \<and> lower b = byte CHR ''x'' | _ \<Rightarrow> False) = False"
    by (rule not_hex_decimal [OF all])
  have rm: "readMantissa 10 False False 0 0 False s =
           (True, digitsValue ip * 10 ^ length fp + digitsValue fp, length fp, False, [])"
    unfolding s_def by (rule readMantissa_decimal [OF assms])
  have rf: "readFloat s =
              Some (False, False, digitsValue ip * 10 ^ length fp + digitsValue fp,
                    - int (length fp), [])"
    using digit_chars(3,4) [OF d0] hex rm
    by (simp add: readFloat_def s0 [symmetric] Let_def) (simp add: s0)
  show ?thesis
    unfolding s_def [symmetric]
    by (cases "length fp = 0") (simp_all add: ParseFloat_def sp rf Let_def)
qed


lemma decimal_exact_nat:
  assumes "decimalValue ip fp = real m / 2 ^ j"
  shows "(digitsValue ip * 10 ^ length fp + digitsValue fp) * 2 ^ j = m * 10 ^ length fp"
proof -
  have "decimalValue ip fp
          = real (digitsValue ip * 10 ^ length fp + digitsValue fp) / 10 ^ length fp"
    by (simp add: decimalValue_def field_simps)
  then have "real (digitsValue ip * 10 ^ length fp + digitsValue fp) / 10 ^ length fp
               = real m / 2 ^ j"
    using assms by simp
  then have "real (digitsValue ip * 10 ^ length fp + digitsValue fp) * 2 ^ j
               = real m * 10 ^ length fp"
    by (simp add: field_simps)
  then have "real ((digitsValue ip * 10 ^ length fp + digitsValue fp) * 2 ^ j)
               = real (m * 10 ^ length fp)"
    by simp
  then show ?thesis
    by (simp only: of_nat_eq_iff)
qed

lemma uptime_decimal_exact:
  assumes "ip \<noteq> []" "\<forall>c\<in>set ip. isDigit c" "\<forall>c\<in>set fp. isDigit c"
    and exact: "decimalValue ip fp = real m / 2 ^ j" and m: "m * 1000 < 2 ^ 53" and j: "j \<le> 1074"
  shows "\<exists>v. ParseFloat (ip @ ''.'' @ fp) = Inr v
           \<and> uint64_of_f64 oor (f64_mul v (Finite False 1000 0))
               = word_of_int \<lfloor>decimalValue ip fp * 1000\<rfloor>"
proof -
  have eq: "(digitsValue ip * 10 ^ length fp + digitsValue fp) * 2 ^ j = m * 10 ^ length fp"
    by (rule decimal_exact_nat [OF exact])
  obtain v where v: "roundToF64 False (digitsValue ip * 10 ^ length fp + digitsValue fp)
                       (10 ^ length fp) = (v, False)"
    and u: "uint64_of_f64 oor (f64_mul v (Finite False 1000 0)) = of_nat (m * 1000 div 2 ^ j)"
    using uptime_of_exact_rational [OF eq _ m j, of oor] by auto
  have pf: "ParseFloat (ip @ ''.'' @ fp) = Inr v"
    using ParseFloat_decimal [OF assms(1-3)] v by simp
  have "decimalValue ip fp * 1000 = real (m * 1000) / real (2 ^ j)"
    by (simp add: exact)
  then have "\<lfloor>decimalValue ip fp * 1000\<rfloor> = int (m * 1000 div 2 ^ j)"
    by (simp only: floor_divide_of_nat_eq)
  then have "word_of_int \<lfloor>decimalValue ip fp * 1000\<rfloor> = (of_nat (m * 1000 div 2 ^ j) :: 64 word)"
    by simp
  with pf u show ?thesis by simp
qed

section \<open>The uptime in milliseconds\<close>

text \<open>
  C4 as stated fails: the uptime field \<open>0.0009765625\<close> (\<open>2^-10\<close>, a binary64 exactly, and
  so is its product with 1000) gives \<^verbatim>\<open>UptimeMs = 0\<close>, while \<open>up * 1000 = 0.9765625\<close>
  rounds to 1.
\<close>

theorem uptime_not_rounded:
  "map_sum id UptimeMs
     (fst (parseLine example_env example_time ''192.0.2.1:4000''
             ''dev1 42 0.0009765625 3 2|hello world'')) = Inr 0
   \<and> round (0.0009765625 * 1000 :: real) = (1 :: int)"
proof -
  have "parseLine example_env example_time ''192.0.2.1:4000''
          ''dev1 42 0.0009765625 3 2|hello world''
        = (Inr (example_li\<lparr>UptimeMs := 0\<rparr>), ''dev1 42 0.0009765625 3 2|hello world'')"
    by (simp add: ev example_li_def split del: if_split)
  moreover have "round (0.0009765625 * 1000 :: real) = (1 :: int)"
    by (simp add: round_def)
  ultimately show ?thesis by simp
qed

text \<open>
  C4, amended: for every valid record \<open><id> <seq> <up> <fd> <lvl>|<msg>\<close>, with an id of
  1 to 50 bytes without a space or a \<open>|\<close>, integer fields in range and an uptime that
  \<^verbatim>\<open>ParseFloat\<close> accepts, \<^verbatim>\<open>parseLine\<close> succeeds and every field other than \<^verbatim>\<open>UptimeMs\<close>
  round-trips exactly, \<^verbatim>\<open>DeviceIDSafe\<close> being the id with the bytes outside the allow-set
  replaced by \<open>_\<close>. When the uptime is written as digits, a point and digits, and its
  value and 1000 times its value are binary64 numbers (the value is \<open>m / 2^j\<close> with
  \<open>1000 m\<close> below \<open>2^53\<close>), \<^verbatim>\<open>UptimeMs\<close> is the integer part of \<open>up * 1000\<close>: the product is
  truncated, not rounded.
\<close>

theorem parse_roundtrip:
  assumes dev: "0 < length dev" "length dev \<le> 50"
      "CHR '' '' \<notin> set dev" "CHR ''|'' \<notin> set dev"
    and nums: "sq < 2 ^ 64" "f < 2 ^ 32" "l < 2 ^ 32"
  shows "(\<forall>up v. ParseFloat up = Inr v \<and> CHR '' '' \<notin> set up \<and> CHR ''|'' \<notin> set up \<longrightarrow>
            (\<exists>u. parseLine e ts src
                   (dev @ '' '' @ dec sq @ '' '' @ up @ '' '' @ dec f @ '' '' @ dec l @ ''|'' @ msg) =
                 (Inr \<lparr>Src = src, Timestamp = ts, DeviceID = dev,
                       SeqNum = of_nat sq, UptimeMs = u,
                       FD = of_nat f, Level = of_nat l, Msg = msg,
                       TimestampStr = FormatTimestamp e ts,
                       DeviceIDSafe = map sanitize dev,
                       Year = take 4 (Format_20060102 ts),
                       Month = take 2 (drop 4 (Format_20060102 ts)),
                       Day = take 2 (drop 6 (Format_20060102 ts)),
                       LevelChar = levelChar (of_nat l)\<rparr>,
                  map sanitize dev @ '' '' @ dec sq @ '' '' @ up @ '' '' @ dec f @ '' '' @ dec l
                    @ ''|'' @ msg)))
       \<and> (\<forall>ip fp m j.
            ip \<noteq> [] \<and> (\<forall>c\<in>set ip. isDigit c) \<and> (\<forall>c\<in>set fp. isDigit c)
            \<and> decimalValue ip fp = real m / 2 ^ j \<and> m * 1000 < 2 ^ 53 \<and> j \<le> 1074 \<longrightarrow>
            parseLine e ts src
              (dev @ '' '' @ dec sq @ '' '' @ (ip @ ''.'' @ fp) @ '' '' @ dec f @ '' '' @ dec l
                 @ ''|'' @ msg) =
            (Inr \<lparr>Src = src, Timestamp = ts, DeviceID = dev,
                  SeqNum = of_nat sq,
                  UptimeMs = word_of_int \<lfloor>decimalValue ip fp * 1000\<rfloor>,
                  FD = of_nat f, Level = of_nat l, Msg = msg,
                  TimestampStr = FormatTimestamp e ts,
                  DeviceIDSafe = map sanitize dev,
                  Year = take 4 (Format_20060102 ts),
                  Month = take 2 (drop 4 (Format_20060102 ts)),
                  Day = take 2 (drop 6 (Format_20060102 ts)),
                  LevelChar = levelChar (of_nat l)\<rparr>,
             map sanitize dev @ '' '' @ dec sq @ '' '' @ (ip @ ''.'' @ fp) @ '' '' @ dec f @ '' ''
               @ dec l @ ''|'' @ msg))"
proof (intro conjI allI impI)
  fix up v
  assume a: "ParseFloat up = Inr v \<and> CHR '' '' \<notin> set up \<and> CHR ''|'' \<notin> set up"
  show "\<exists>u. parseLine e ts src
                   (dev @ '' '' @ dec sq @ '' '' @ up @ '' '' @ dec f @ '' '' @ dec l @ ''|'' @ msg) =
                 (Inr \<lparr>Src = src, Timestamp = ts, DeviceID = dev,
                       SeqNum = of_nat sq, UptimeMs = u,
                       FD = of_nat f, Level = of_nat l, Msg = msg,
                       TimestampStr = FormatTimestamp e ts,
                       DeviceIDSafe = map sanitize dev,
                       Year = take 4 (Format_20060102 ts),
                       Month = take 2 (drop 4 (Format_20060102 ts)),
                       Day = take 2 (drop 6 (Format_20060102 ts)),
                       LevelChar = levelChar (of_nat l)\<rparr>,
                  map sanitize dev @ '' '' @ dec sq @ '' '' @ up @ '' '' @ dec f @ '' '' @ dec l
                    @ ''|'' @ msg)"
    using parseLine_valid_record [OF dev nums, of up v e ts src msg] a by blast
next
  fix ip fp m j
  assume a: "ip \<noteq> [] \<and> (\<forall>c\<in>set ip. isDigit c) \<and> (\<forall>c\<in>set fp. isDigit c)
            \<and> decimalValue ip fp = real m / 2 ^ j \<and> m * 1000 < 2 ^ 53 \<and> j \<le> 1074"
  then obtain v where pf: "ParseFloat (ip @ ''.'' @ fp) = Inr v"
    and u: "uint64_of_f64 (uint64_oor e) (f64_mul v (Finite False 1000 0))
              = word_of_int \<lfloor>decimalValue ip fp * 1000\<rfloor>"
    using uptime_decimal_exact [of ip fp m j "uint64_oor e"] by blast
  have nosep: "CHR '' '' \<notin> set (ip @ ''.'' @ fp)" "CHR ''|'' \<notin> set (ip @ ''.'' @ fp)"
    using a isDigit_not_sep by auto
  show "parseLine e ts src
              (dev @ '' '' @ dec sq @ '' '' @ (ip @ ''.'' @ fp) @ '' '' @ dec f @ '' '' @ dec l
                 @ ''|'' @ msg) =
            (Inr \<lparr>Src = src, Timestamp = ts, DeviceID = dev,
                  SeqNum = of_nat sq,
                  UptimeMs = word_of_int \<lfloor>decimalValue ip fp * 1000\<rfloor>,
                  FD = of_nat f, Level = of_nat l, Msg = msg,
                  TimestampStr = FormatTimestamp e ts,
                  DeviceIDSafe = map sanitize dev,
                  Year = take 4 (Format_20060102 ts),
                  Month = take 2 (drop 4 (Format_20060102 ts)),
                  Day = take 2 (drop 6 (Format_20060102 ts)),
                  LevelChar = levelChar (of_nat l)\<rparr>,
             map sanitize dev @ '' '' @ dec sq @ '' '' @ (ip @ ''.'' @ fp) @ '' '' @ dec f @ '' ''
               @ dec l @ ''|'' @ msg)"
    unfolding u [symmetric]
    by (rule parseLine_valid_record [OF dev nums pf nosep])
qed

text \<open>
  The end-to-end record of the specification: \<open>12.5\<close> seconds (\<open>25 / 2\<close>) are 12500
  milliseconds. A record with the uptime \<open>0.001\<close> parses too.
\<close>

theorem parse_roundtrip_witness:
  "parseLine example_env example_time ''192.0.2.1:4000'' ''dev1 42 12.5 3 2|hello world'' =
     (Inr example_li, ''dev1 42 12.5 3 2|hello world'')
   \<and> UptimeMs example_li = word_of_int \<lfloor>decimalValue ''12'' ''5'' * 1000\<rfloor>
   \<and> decimalValue ''12'' ''5'' * 1000 = 12500
   \<and> (\<exists>u. fst (parseLine example_env example_time ''192.0.2.1:4000''
                  ''dev1 42 0.001 3 2|hello world'') = Inr (example_li\<lparr>UptimeMs := u\<rparr>))"
proof -
  note t = parse_roundtrip [of "''dev1''" 42 3 2 example_env example_time "''192.0.2.1:4000''"
      "''hello world''"]
  have dv: "decimalValue ''12'' ''5'' = 25 / 2"
    by (simp add: decimalValue_def digitsValue_def digitVal_def byte_def)
  have decs: "dec 42 = ''42''" "dec 3 = ''3''" "dec 2 = ''2''"
    by (simp_all add: dec.simps digitChar_def)
  have li: "\<lparr>Src = ''192.0.2.1:4000'', Timestamp = example_time, DeviceID = ''dev1'',
               SeqNum = 42, UptimeMs = u,
               FD = 3, Level = 2, Msg = ''hello world'',
               TimestampStr = FormatTimestamp example_env example_time,
               DeviceIDSafe = ''dev1'',
               Year = take 4 (Format_20060102 example_time),
               Month = take 2 (drop 4 (Format_20060102 example_time)),
               Day = take 2 (drop 6 (Format_20060102 example_time)),
               LevelChar = levelChar 2\<rparr> = example_li\<lparr>UptimeMs := u\<rparr>" for u
    by (simp add: example_li_def sanitize_def safeChars_def byte_def FormatTimestamp_def
          Format_20060102_def pad_def levelChar_def dec.simps digitChar_def
          example_env_def example_time_def)
  have "parseLine example_env example_time ''192.0.2.1:4000''
          (''dev1'' @ '' '' @ dec 42 @ '' '' @ (''12'' @ ''.'' @ ''5'') @ '' '' @ dec 3 @ '' ''
             @ dec 2 @ ''|'' @ ''hello world'')
        = (Inr \<lparr>Src = ''192.0.2.1:4000'', Timestamp = example_time, DeviceID = ''dev1'',
               SeqNum = of_nat 42,
               UptimeMs = word_of_int \<lfloor>decimalValue ''12'' ''5'' * 1000\<rfloor>,
               FD = of_nat 3, Level = of_nat 2, Msg = ''hello world'',
               TimestampStr = FormatTimestamp example_env example_time,
               DeviceIDSafe = map sanitize ''dev1'',
               Year = take 4 (Format_20060102 example_time),
               Month = take 2 (drop 4 (Format_20060102 example_time)),
               Day = take 2 (drop 6 (Format_20060102 example_time)),
               LevelChar = levelChar (of_nat 2)\<rparr>,
           map sanitize ''dev1'' @ '' '' @ dec 42 @ '' '' @ (''12'' @ ''.'' @ ''5'') @ '' ''
             @ dec 3 @ '' '' @ dec 2 @ ''|'' @ ''hello world'')"
    by (rule t [THEN conjunct2, rule_format, where m = 25 and j = 1])
       (simp_all add: dv isDigit_def byte_def)
  then have first: "parseLine example_env example_time ''192.0.2.1:4000''
      ''dev1 42 12.5 3 2|hello world''
      = (Inr (example_li\<lparr>UptimeMs := word_of_int \<lfloor>decimalValue ''12'' ''5'' * 1000\<rfloor>\<rparr>),
         ''dev1 42 12.5 3 2|hello world'')"
    by (simp add: decs sanitize_def safeChars_def byte_def li)
  have val: "decimalValue ''12'' ''5'' * 1000 = 12500"
    by (simp add: dv)
  have same: "example_li\<lparr>UptimeMs := word_of_int \<lfloor>decimalValue ''12'' ''5'' * 1000\<rfloor>\<rparr> = example_li"
    unfolding val by (simp add: example_li_def)
  have pf: "ParseFloat ''0.001'' = Inr (Finite False 4611686018427388 (- 62))"
    by (simp add: ev split del: if_split)
  have "\<exists>u. parseLine example_env example_time ''192.0.2.1:4000''
          (''dev1'' @ '' '' @ dec 42 @ '' '' @ ''0.001'' @ '' '' @ dec 3 @ '' ''
             @ dec 2 @ ''|'' @ ''hello world'')
        = (Inr \<lparr>Src = ''192.0.2.1:4000'', Timestamp = example_time, DeviceID = ''dev1'',
               SeqNum = of_nat 42, UptimeMs = u,
               FD = of_nat 3, Level = of_nat 2, Msg = ''hello world'',
               TimestampStr = FormatTimestamp example_env example_time,
               DeviceIDSafe = map sanitize ''dev1'',
               Year = take 4 (Format_20060102 example_time),
               Month = take 2 (drop 4 (Format_20060102 example_time)),
               Day = take 2 (drop 6 (Format_20060102 example_time)),
               LevelChar = levelChar (of_nat 2)\<rparr>,
           map sanitize ''dev1'' @ '' '' @ dec 42 @ '' '' @ ''0.001'' @ '' ''
             @ dec 3 @ '' '' @ dec 2 @ ''|'' @ ''hello world'')"
    by (rule t [THEN conjunct1, rule_format, where v = "Finite False 4611686018427388 (- 62)"])
       (simp_all add: pf)
  then have second: "\<exists>u. fst (parseLine example_env example_time ''192.0.2.1:4000''
                  ''dev1 42 0.001 3 2|hello world'') = Inr (example_li\<lparr>UptimeMs := u\<rparr>)"
    by (auto simp: decs sanitize_def safeChars_def byte_def li)
  have up: "UptimeMs example_li = word_of_int \<lfloor>decimalValue ''12'' ''5'' * 1000\<rfloor>"
    unfolding val by (simp add: example_li_def)
  have first': "parseLine example_env example_time ''192.0.2.1:4000''
      ''dev1 42 12.5 3 2|hello world'' = (Inr example_li, ''dev1 42 12.5 3 2|hello world'')"
    using first unfolding same .
  show ?thesis
    by (intro conjI first' up val second)
qed

section \<open>A negative uptime\<close>

text \<open>
  C5: the line \<open>dev1 42 -1.5 3 2|hello world\<close> has a negative uptime. \<^verbatim>\<open>parseLine\<close>
  accepts it: \<^verbatim>\<open>ParseFloat\<close> reads \<open>-1.5\<close>, and \<^verbatim>\<open>UptimeMs\<close> is what the platform makes
  of \<^verbatim>\<open>uint64(-1500.0)\<close>.
\<close>

theorem negative_uptime_accepted:
  "\<exists>li. parseLine e ts src ''dev1 42 -1.5 3 2|hello world''
           = (Inr li, ''dev1 42 -1.5 3 2|hello world'')
       \<and> UptimeMs li = uint64_oor e (Finite True 6597069766656000 (- 42))"
proof -
  have cut: "bytes_Cut ''dev1 42 -1.5 3 2|hello world'' CHR ''|'' = ((0, 16), (17, 11), True)"
    by (simp add: bytes_Cut_def)
  have parts: "bytes_Split ''dev1 42 -1.5 3 2|hello world'' (0, 16) CHR '' ''
                 = [(0, 4), (5, 2), (8, 4), (13, 1), (15, 1)]"
    by (simp add: bytes_Split_def slice_bytes_def)
  have nums: "ParseUint ''42'' 64 = Inr 42" "ParseUint ''3'' 32 = Inr 3" "ParseUint ''2'' 32 = Inr 2"
    by (simp_all add: ParseUint_def isDigit_def digitVal_def byte_def maxUint64_def)
  have prod: "f64_mul (Finite True 6755399441055744 (- 52)) (Finite False 1000 0)
                = Finite True 6597069766656000 (- 42)"
    by (simp add: roundDyadic_def roundToF64_def floorLog2_def bitLength.simps Let_def
          split del: if_split)
  have san: "sanitize_at ''dev1 42 -1.5 3 2|hello world'' 0 4 = ''dev1 42 -1.5 3 2|hello world''"
    by (simp add: sanitize_at_prefix sanitize_def safeChars_def byte_def)
  show ?thesis
    unfolding parseLine_def cut
    using prod
    by (simp add: parts slice_bytes_def nums parseFloat_minus_1_5 truncMag_def san Let_def)
qed

section \<open>Facts about the file manager\<close>

text \<open>The first write of the examples: the directory, the file, the link, the record.\<close>

lemma first_write:
  "syscalls example_world1 =
     [OpMkdirAll ''logs/dev1'',
      OpOpenFile ''logs/dev1/dev1.20220102.log'',
      OpReadlink ''logs/dev1/dev1.log'',
      OpRemove ''logs/dev1/dev1.log'',
      OpSymlink ''dev1.20220102.log'' ''logs/dev1/dev1.log'',
      OpWrite ''logs/dev1/dev1.20220102.log'' [],
      OpWrite ''logs/dev1/dev1.20220102.log'' '' '',
      OpWrite ''logs/dev1/dev1.20220102.log'' ''192.0.2.1:4000'',
      OpWrite ''logs/dev1/dev1.20220102.log'' '' '',
      OpWrite ''logs/dev1/dev1.20220102.log'' ''I'',
      OpWrite ''logs/dev1/dev1.20220102.log'' '' '',
      OpWrite ''logs/dev1/dev1.20220102.log'' ''hello world'',
      OpWrite ''logs/dev1/dev1.20220102.log'' [CHR 0x0A]]"
  "klog example_world1 =
     [Info_Opened ''logs/dev1/dev1.20220102.log'',
      Info_Symlinked ''logs/dev1/dev1.log'' ''dev1.20220102.log'']"
  "files example_world1 ''logs/dev1/dev1.20220102.log'' =
     Some ('' 192.0.2.1:4000 I hello world'' @ [CHR 0x0A])"
  "links example_world1 ''logs/dev1/dev1.log'' = Some ''dev1.20220102.log''"
  "devices example_fm1 ''dev1'' =
     Some \<lparr>fd = Some ''logs/dev1/dev1.20220102.log'',
           fname = ''logs/dev1/dev1.20220102.log'', lastUsed = example_time\<rparr>"
  "nameTmpl example_fm1 = fileNameTmpl ''logs''"
  "latestNameTmpl example_fm1 = Some (latestFileNameTmpl ''logs'')"
  "recordTmpl example_fm1 = defaultFileFormat"
  "write_outcomes example_world1 = []" "open_fails example_world1 = {}"
  "mkdir_fails example_world1 = {}" "symlink_fails example_world1 = {}"
  "now example_world1 = example_time"
  unfolding example_world1_def example_fm1_def
  by (simp_all add: fsev)

lemma fileNameTmpl_logs:
  "fileNameTmpl ''logs'' li = Some (''logs/'' @ DeviceIDSafe li @ ''/'' @ deviceLogName li)"
  by (simp add: fileNameTmpl_def joinDir_def filepath_Clean_def)

lemma example_names:
  "fileNameTmpl ''logs'' example_li = Some ''logs/dev1/dev1.20220102.log''"
  "latestFileNameTmpl ''logs'' example_li = Some ''logs/dev1/dev1.log''"
  "defaultFileFormat example_li =
     map Some [[], '' '', ''192.0.2.1:4000'', '' '', ''I'', '' '', ''hello world'']"
  "DeviceIDSafe example_li = ''dev1''"
  by (simp_all add: fsev)

lemma Open_fast_path:
  assumes "nameT li = Some name" "fname di = name" "fd di = Some f"
  shows "Open nameT latestT li di w = (None, di, w)"
  using assms by (simp add: Open_def execTmpl_def)

text \<open>A write touches the file, the outcomes left and the list of the calls made.\<close>

lemma File_Write_frame:
  "links (snd (File_Write f bs w)) = links w"
  "klog (snd (File_Write f bs w)) = klog w"
  "now (snd (File_Write f bs w)) = now w"
  "stdout (snd (File_Write f bs w)) = stdout w"
  by (simp_all add: File_Write_def sys_def consume_outcome_def split: option.splits)

lemma File_Write_syscalls:
  "syscalls (snd (File_Write (Some f) bs w)) = syscalls w @ [OpWrite f bs]"
  by (simp add: File_Write_def sys_def consume_outcome_def)

lemma writeNodes_File_frame_all:
  "links (snd (writeNodes (File_Write f) ns w)) = links w
   \<and> klog (snd (writeNodes (File_Write f) ns w)) = klog w
   \<and> now (snd (writeNodes (File_Write f) ns w)) = now w
   \<and> stdout (snd (writeNodes (File_Write f) ns w)) = stdout w"
proof (induction ns arbitrary: w)
  case Nil
  show ?case by simp
next
  case (Cons n ns)
  show ?case
  proof (cases n)
    case None
    then show ?thesis by simp
  next
    case (Some piece)
    obtain ok w1 where fw: "File_Write f piece w = (ok, w1)"
      by (cases "File_Write f piece w")
    then have "links w1 = links w" "klog w1 = klog w" "now w1 = now w" "stdout w1 = stdout w"
      using File_Write_frame [of f piece w] by simp_all
    then show ?thesis
      using Some fw Cons.IH [of w1] by (cases ok) simp_all
  qed
qed

lemma writeNodes_File_frame:
  "links (snd (writeNodes (File_Write f) ns w)) = links w"
  "klog (snd (writeNodes (File_Write f) ns w)) = klog w"
  "now (snd (writeNodes (File_Write f) ns w)) = now w"
  "stdout (snd (writeNodes (File_Write f) ns w)) = stdout w"
  using writeNodes_File_frame_all [of f ns w] by simp_all

lemma Execute_frame:
  "links (snd (Execute t (File_Write f) li w)) = links w"
  "klog (snd (Execute t (File_Write f) li w)) = klog w"
  "now (snd (Execute t (File_Write f) li w)) = now w"
  "stdout (snd (Execute t (File_Write f) li w)) = stdout w"
  by (simp_all add: Execute_def writeNodes_File_frame)

text \<open>
  The calls that the execution of a template into an open file makes: one write for each
  piece, in order, up to the piece at which the execution stops.
\<close>

lemma writeNodes_File_syscalls:
  "\<exists>ts rest. ns = map Some ts @ rest
     \<and> syscalls (snd (writeNodes (File_Write (Some f)) ns w)) = syscalls w @ map (OpWrite f) ts"
proof (induction ns arbitrary: w)
  case Nil
  show ?case by simp
next
  case (Cons n ns)
  show ?case
  proof (cases n)
    case None
    have "n # ns = map Some [] @ (n # ns)" by simp
    moreover have "syscalls (snd (writeNodes (File_Write (Some f)) (n # ns) w))
                     = syscalls w @ map (OpWrite f) []"
      using None by simp
    ultimately show ?thesis by blast
  next
    case (Some piece)
    obtain ok w1 where fw: "File_Write (Some f) piece w = (ok, w1)"
      by (cases "File_Write (Some f) piece w")
    then have sc: "syscalls w1 = syscalls w @ [OpWrite f piece]"
      using File_Write_syscalls [of f piece w] by simp
    show ?thesis
    proof (cases ok)
      case False
      have "n # ns = map Some [piece] @ ns" using Some by simp
      moreover have "syscalls (snd (writeNodes (File_Write (Some f)) (n # ns) w))
                       = syscalls w @ map (OpWrite f) [piece]"
        using Some fw False sc by simp
      ultimately show ?thesis by blast
    next
      case True
      obtain ts rest where r: "ns = map Some ts @ rest"
        and s1: "syscalls (snd (writeNodes (File_Write (Some f)) ns w1))
                   = syscalls w1 @ map (OpWrite f) ts"
        using Cons.IH [of w1] by blast
      have "n # ns = map Some (piece # ts) @ rest" using Some r by simp
      moreover have "syscalls (snd (writeNodes (File_Write (Some f)) (n # ns) w))
                       = syscalls w @ map (OpWrite f) (piece # ts)"
        using Some fw True sc s1 by simp
      ultimately show ?thesis by blast
    qed
  qed
qed

lemma Execute_syscalls:
  "\<exists>ts rest. t li = map Some ts @ rest
     \<and> syscalls (snd (Execute t (File_Write (Some f)) li w)) = syscalls w @ map (OpWrite f) ts"
  unfolding Execute_def by (rule writeNodes_File_syscalls)

text \<open>\<^verbatim>\<open>WriteLine\<close> on the fast path: the writes and nothing else.\<close>

lemma WriteLine_fast_path:
  assumes "devices fm (DeviceIDSafe li) = Some di" "nameTmpl fm li = Some name"
    and "fname di = name" "fd di = Some f"
  shows "WriteLine fm li w =
           (fm\<lparr>devices := (devices fm)(DeviceIDSafe li \<mapsto> di\<lparr>lastUsed := now w\<rparr>)\<rparr>,
            snd (File_Write (Some f) [CHR 0x0A]
                   (snd (Execute (recordTmpl fm) (File_Write (Some f)) li w))))"
proof -
  have "getDevice fm li w = di"
    using assms(1) by (simp add: getDevice_def)
  moreover have "Open (nameTmpl fm) (latestNameTmpl fm) li di w = (None, di, w)"
    using assms(2-4) by (rule Open_fast_path [where nameT = "nameTmpl fm" and li = li])
  ultimately show ?thesis
    using assms(4)
    by (simp add: WriteLine_def Let_def File_Write_frame Execute_frame)
qed

lemma Close_handle:
  "fd (fst (Close di w)) = None"
  "fname (fst (Close di w)) = fname di"
  "lastUsed (fst (Close di w)) = lastUsed di"
  by (simp_all add: Close_def split: option.splits)

lemma Close_frame:
  "files (snd (Close di w)) = files w"
  "links (snd (Close di w)) = links w"
  "mkdir_fails (snd (Close di w)) = mkdir_fails w"
  "open_fails (snd (Close di w)) = open_fails w"
  "symlink_fails (snd (Close di w)) = symlink_fails w"
  "write_outcomes (snd (Close di w)) = write_outcomes w"
  "now (snd (Close di w)) = now w"
  by (simp_all add: Close_def sys_def klogf_def split: option.splits)

lemma Close_syscalls:
  "syscalls (snd (Close di w)) =
     syscalls w @ (case fd di of None \<Rightarrow> [] | Some f \<Rightarrow> [OpClose f])"
  by (simp add: Close_def sys_def klogf_def split: option.splits)

lemma Close_klog:
  "klog (snd (Close di w)) =
     klog w @ (case fd di of None \<Rightarrow> [] | Some f \<Rightarrow> [Info_Closed (fname di)])"
  by (simp add: Close_def sys_def klogf_def split: option.splits)

text \<open>
  \<^verbatim>\<open>Open\<close> off the fast path begins with the close (which does nothing to a closed
  handle), the assignment of the name and \<^verbatim>\<open>MkdirAll\<close>.
\<close>

lemma Open_slow_path:
  assumes "nameT li = Some name" "\<not> (fname di = name \<and> fd di \<noteq> None)"
  shows "Open nameT latestT li di w =
     (let di2 = (fst (Close di w))\<lparr>fname := name\<rparr>;
          (ok, w2) = os_MkdirAll (filepath_Dir name) (snd (Close di w))
      in if \<not> ok then (Some CreateLogDir, di2, w2)
         else
           (case os_OpenFile name w2 of
              (None, w3) \<Rightarrow> (Some OpenLogFile, di2, w3)
            | (Some f, w3) \<Rightarrow>
                let w4 = klogf (Info_Opened name) w3;
                    di3 = di2\<lparr>fd := Some f\<rparr>
                in (case latestT of
                      None \<Rightarrow> (None, di3, w4)
                    | Some lt \<Rightarrow>
                        (case lt li of
                           None \<Rightarrow> (Some ExecLatestTemplate, di3, w4)
                         | Some latestName \<Rightarrow>
                             let (target, w5) = os_Readlink latestName w4;
                                 latestBase = filepath_Base name
                             in if target \<noteq> Some latestBase then
                                  (let w6 = os_Remove latestName w5;
                                       (linked, w7) = os_Symlink latestBase latestName w6
                                   in if \<not> linked
                                      then (None, di3, klogf (Error_Symlink name latestBase) w7)
                                      else (None, di3, klogf (Info_Symlinked latestName latestBase) w7))
                                else (None, di3, w5)))))"
proof (cases "fd di")
  case None
  with assms show ?thesis
    by (simp add: Open_def execTmpl_def Close_def Let_def os_MkdirAll_def os_OpenFile_def
          os_Readlink_def os_Symlink_def split: option.splits)
next
  case (Some f)
  with assms show ?thesis
    by (simp add: Open_def execTmpl_def Close_def Let_def os_MkdirAll_def os_OpenFile_def
          os_Readlink_def os_Symlink_def split: option.splits)
qed

text \<open>A failing \<^verbatim>\<open>MkdirAll\<close> or \<^verbatim>\<open>OpenFile\<close>: the handle is closed and carries the new name.\<close>

lemma Open_failure:
  assumes "nameT li = Some name" "\<not> (fname di = name \<and> fd di \<noteq> None)"
    and "filepath_Dir name \<in> mkdir_fails w \<or> name \<in> open_fails w"
  shows "\<exists>err di' w'. Open nameT latestT li di w = (Some err, di', w')
           \<and> fd di' = None \<and> fname di' = name
           \<and> files w' = files w \<and> links w' = links w"
proof (cases "filepath_Dir name \<in> mkdir_fails w")
  case True
  then show ?thesis
    by (simp add: Open_slow_path [where nameT = nameT and li = li, OF assms(1,2)] os_MkdirAll_def Close_frame Close_handle
          sys_def Let_def)
next
  case False
  with assms(3) have "name \<in> open_fails w" by simp
  with False show ?thesis
    by (simp add: Open_slow_path [where nameT = nameT and li = li, OF assms(1,2)] os_MkdirAll_def os_OpenFile_def Close_frame
          Close_handle sys_def Let_def)
qed

lemma WriteLine_open_failure:
  assumes name: "nameTmpl fm li = Some name"
    and slow: "\<not> (fname (getDevice fm li w) = name \<and> fd (getDevice fm li w) \<noteq> None)"
    and fail: "filepath_Dir name \<in> mkdir_fails w \<or> name \<in> open_fails w"
  shows "\<exists>err di' w'. WriteLine fm li w =
             (fm\<lparr>devices := (devices fm)(DeviceIDSafe li \<mapsto> di')\<rparr>,
              klogf (Error_OpenLogFile err) w')
           \<and> fd di' = None \<and> fname di' = name
           \<and> files w' = files w \<and> links w' = links w"
proof -
  obtain err di' w' where
    op: "Open (nameTmpl fm) (latestNameTmpl fm) li (getDevice fm li w) w = (Some err, di', w')"
    and rest: "fd di' = None" "fname di' = name" "files w' = files w" "links w' = links w"
    using Open_failure [where nameT = "nameTmpl fm" and li = li, OF name slow fail] by blast
  have "WriteLine fm li w =
          (fm\<lparr>devices := (devices fm)(DeviceIDSafe li \<mapsto> di')\<rparr>,
           klogf (Error_OpenLogFile err) w')"
    using op by (simp add: WriteLine_def Let_def)
  with rest show ?thesis by blast
qed

text \<open>Every system call is appended to the list of the calls made.\<close>

lemma File_Write_extends: "\<exists>ws. syscalls (snd (File_Write f bs w)) = syscalls w @ ws"
  by (cases f) (simp_all add: File_Write_def sys_def consume_outcome_def)

lemma writeNodes_File_extends:
  "\<exists>ws. syscalls (snd (writeNodes (File_Write f) ns w)) = syscalls w @ ws"
proof (cases f)
  case None
  show ?thesis
  proof (cases ns)
    case Nil then show ?thesis by simp
  next
    case (Cons n ns')
    then show ?thesis using None by (cases n) (simp_all add: File_Write_def)
  qed
next
  case (Some name)
  then show ?thesis using writeNodes_File_syscalls [of ns name w] by blast
qed

lemma Execute_extends:
  "\<exists>ws. syscalls (snd (Execute t (File_Write f) li w)) = syscalls w @ ws"
  unfolding Execute_def by (rule writeNodes_File_extends)

lemma WriteLine_extends_Open:
  "\<exists>ws. syscalls (snd (WriteLine fm li w)) =
     syscalls (snd (snd (Open (nameTmpl fm) (latestNameTmpl fm) li (getDevice fm li w) w))) @ ws"
proof -
  obtain r di1 w1 where
    op: "Open (nameTmpl fm) (latestNameTmpl fm) li (getDevice fm li w) w = (r, di1, w1)"
    by (metis prod_cases3)
  show ?thesis
  proof (cases r)
    case (Some err)
    with op show ?thesis by (simp add: WriteLine_def Let_def klogf_def)
  next
    case None
    obtain ws1 where
      "syscalls (snd (Execute (recordTmpl fm) (File_Write (fd di1)) li w1)) = syscalls w1 @ ws1"
      using Execute_extends by blast
    moreover obtain ws2 where
      "syscalls (snd (File_Write (fd di1) [CHR 0x0A]
                  (snd (Execute (recordTmpl fm) (File_Write (fd di1)) li w1))))
         = syscalls (snd (Execute (recordTmpl fm) (File_Write (fd di1)) li w1)) @ ws2"
      using File_Write_extends by blast
    ultimately show ?thesis
      using op None by (simp add: WriteLine_def Let_def)
  qed
qed

text \<open>With a closed handle the first system call of \<^verbatim>\<open>Open\<close> is \<^verbatim>\<open>MkdirAll\<close>.\<close>

lemma Open_closed_starts_with_mkdir:
  assumes "nameT li = Some name" "fd di = None"
  shows "\<exists>ws. syscalls (snd (snd (Open nameT latestT li di w))) =
           syscalls w @ OpMkdirAll (filepath_Dir name) # ws"
proof -
  have cl: "Close di w = (di, w)" using assms(2) by (simp add: Close_def)
  have slow: "\<not> (fname di = name \<and> fd di \<noteq> None)" using assms(2) by simp
  show ?thesis
    unfolding Open_slow_path [where nameT = nameT and li = li, OF assms(1) slow] cl
    by (simp add: os_MkdirAll_def os_OpenFile_def os_Readlink_def os_Remove_def os_Symlink_def
          sys_def klogf_def Let_def split: option.splits)
qed

text \<open>
  \<^verbatim>\<open>Open\<close> off the fast path, when the directory and the file can be made and a link
  name is configured: the link is read, and made to point at the base name of the file
  unless \<^verbatim>\<open>Symlink\<close> fails.
\<close>

lemma Open_symlink_step:
  assumes "nameT li = Some name" "\<not> (fname di = name \<and> fd di \<noteq> None)"
    and "filepath_Dir name \<notin> mkdir_fails w" "name \<notin> open_fails w"
    and "lt li = Some latestName"
  shows "\<exists>di' w'. Open nameT (Some lt) li di w = (None, di', w')
           \<and> fd di' = Some name \<and> fname di' = name
           \<and> OpReadlink latestName \<in> set (syscalls w')
           \<and> (latestName \<notin> symlink_fails w \<longrightarrow> links w' latestName = Some (filepath_Base name))"
  using assms(3-5)
  by (simp add: Open_slow_path [where nameT = nameT and li = li, OF assms(1,2)]
        os_MkdirAll_def os_OpenFile_def os_Readlink_def os_Remove_def os_Symlink_def
        sys_def klogf_def Close_frame Let_def split: option.splits)

text \<open>After a successful \<^verbatim>\<open>Open\<close>, \<^verbatim>\<open>WriteLine\<close> only writes: it logs nothing.\<close>

lemma WriteLine_after_Open:
  assumes "Open (nameTmpl fm) (latestNameTmpl fm) li (getDevice fm li w) w = (None, di1, w1)"
  shows "links (snd (WriteLine fm li w)) = links w1"
    and "klog (snd (WriteLine fm li w)) = klog w1"
    and "devices (fst (WriteLine fm li w)) (DeviceIDSafe li) = Some (di1\<lparr>lastUsed := now w1\<rparr>)"
  using assms
  by (simp_all add: WriteLine_def Let_def File_Write_frame Execute_frame)

text \<open>
  The calls of \<^verbatim>\<open>WriteLine\<close> after a successful \<^verbatim>\<open>Open\<close>: a write for each piece of the
  record up to the one at which the execution of the template stops, and the write of
  the newline, which is made whether the execution has failed or not.
\<close>

lemma WriteLine_writes:
  assumes "Open (nameTmpl fm) (latestNameTmpl fm) li (getDevice fm li w) w = (None, di1, w1)"
    and "fd di1 = Some f"
  shows "\<exists>ts rest. recordTmpl fm li = map Some ts @ rest
           \<and> syscalls (snd (WriteLine fm li w)) =
               syscalls w1 @ map (OpWrite f) ts @ [OpWrite f [CHR 0x0A]]"
proof -
  obtain ts rest where r: "recordTmpl fm li = map Some ts @ rest"
    and "syscalls (snd (Execute (recordTmpl fm) (File_Write (Some f)) li w1))
           = syscalls w1 @ map (OpWrite f) ts"
    using Execute_syscalls [of "recordTmpl fm" li f w1] by blast
  then have "syscalls (snd (WriteLine fm li w)) =
               syscalls w1 @ map (OpWrite f) ts @ [OpWrite f [CHR 0x0A]]"
    using assms by (simp add: WriteLine_def Let_def File_Write_syscalls)
  with r show ?thesis by blast
qed

section \<open>The fast path and the symbolic link\<close>

text \<open>
  C1 as stated fails. After the first write of the examples the link
  \<open>logs/dev1/dev1.log\<close> is removed. The next write for the same device on the same day
  takes the fast path: every system call it makes is a \<^verbatim>\<open>Write\<close> on the open file, it
  does not read the link, and it leaves the link missing, although a link pattern is
  configured.
\<close>

theorem fast_path_leaves_link_missing:
  "latestNameTmpl example_fm1 = Some (latestFileNameTmpl ''logs'')
   \<and> links (snd (WriteLine example_fm1 example_li (example_world1\<lparr>links := Map.empty\<rparr>)))
       ''logs/dev1/dev1.log'' = None
   \<and> syscalls (snd (WriteLine example_fm1 example_li (example_world1\<lparr>links := Map.empty\<rparr>))) =
       syscalls example_world1 @
         map (OpWrite ''logs/dev1/dev1.20220102.log'')
           [[], '' '', ''192.0.2.1:4000'', '' '', ''I'', '' '', ''hello world'', [CHR 0x0A]]"
proof -
  have "devices example_fm1 (DeviceIDSafe example_li) =
          Some \<lparr>fd = Some ''logs/dev1/dev1.20220102.log'',
                fname = ''logs/dev1/dev1.20220102.log'', lastUsed = example_time\<rparr>"
    by (simp add: first_write example_names)
  moreover have "nameTmpl example_fm1 example_li = Some ''logs/dev1/dev1.20220102.log''"
    by (simp add: first_write example_names)
  ultimately have
    "WriteLine example_fm1 example_li (example_world1\<lparr>links := Map.empty\<rparr>) =
       (example_fm1\<lparr>devices := (devices example_fm1)(DeviceIDSafe example_li \<mapsto>
          \<lparr>fd = Some ''logs/dev1/dev1.20220102.log'',
           fname = ''logs/dev1/dev1.20220102.log'', lastUsed = example_time\<rparr>
          \<lparr>lastUsed := now (example_world1\<lparr>links := Map.empty\<rparr>)\<rparr>)\<rparr>,
        snd (File_Write (Some ''logs/dev1/dev1.20220102.log'') [CHR 0x0A]
          (snd (Execute (recordTmpl example_fm1) (File_Write (Some ''logs/dev1/dev1.20220102.log''))
             example_li (example_world1\<lparr>links := Map.empty\<rparr>)))))"
    by (intro WriteLine_fast_path) simp_all
  then show ?thesis
    by (simp add: File_Write_frame Execute_frame first_write example_names Execute_def
          File_Write_def write_outcome_def consume_outcome_def sys_def)
qed

text \<open>
  C1, amended: in \<^verbatim>\<open>WriteLine\<close>, when the recomputed file name equals the name on the
  handle and the handle's file is open (the fast path), step 5 is skipped with steps 3
  and 4: the link is neither read nor recreated, nothing is logged, and the only system
  calls are writes on the open file, one for each piece of the record up to the piece at
  which the execution of the template stops, and one for the newline. The link is read,
  and recreated if missing or different, only on the path that opens the file.
\<close>

theorem link_step_only_after_open:
  assumes "nameTmpl fm li = Some name"
    and "latestNameTmpl fm = Some lt" "lt li = Some latestName"
  shows "(fname (getDevice fm li w) = name \<and> fd (getDevice fm li w) = Some f \<longrightarrow>
            links (snd (WriteLine fm li w)) = links w
          \<and> klog (snd (WriteLine fm li w)) = klog w
          \<and> (\<exists>pieces rest. recordTmpl fm li = map Some pieces @ rest
                \<and> syscalls (snd (WriteLine fm li w)) =
                    syscalls w @ map (OpWrite f) pieces @ [OpWrite f [CHR 0x0A]]))
       \<and> (\<not> (fname (getDevice fm li w) = name \<and> fd (getDevice fm li w) \<noteq> None)
            \<and> filepath_Dir name \<notin> mkdir_fails w \<and> name \<notin> open_fails w \<longrightarrow>
            OpReadlink latestName \<in> set (syscalls (snd (WriteLine fm li w)))
          \<and> (latestName \<notin> symlink_fails w \<longrightarrow>
               links (snd (WriteLine fm li w)) latestName = Some (filepath_Base name)))"
proof (intro conjI impI)
  assume fast: "fname (getDevice fm li w) = name \<and> fd (getDevice fm li w) = Some f"
  then have op: "Open (nameTmpl fm) (latestNameTmpl fm) li (getDevice fm li w) w
                   = (None, getDevice fm li w, w)"
    using assms(1) by (intro Open_fast_path [where nameT = "nameTmpl fm" and li = li]) simp_all
  show "links (snd (WriteLine fm li w)) = links w"
    and "klog (snd (WriteLine fm li w)) = klog w"
    using WriteLine_after_Open(1,2) [OF op] by simp_all
  show "\<exists>pieces rest. recordTmpl fm li = map Some pieces @ rest
          \<and> syscalls (snd (WriteLine fm li w)) =
              syscalls w @ map (OpWrite f) pieces @ [OpWrite f [CHR 0x0A]]"
    using WriteLine_writes [OF op] fast by simp
next
  assume slow: "\<not> (fname (getDevice fm li w) = name \<and> fd (getDevice fm li w) \<noteq> None)
                 \<and> filepath_Dir name \<notin> mkdir_fails w \<and> name \<notin> open_fails w"
  then obtain di' w' where
    op: "Open (nameTmpl fm) (latestNameTmpl fm) li (getDevice fm li w) w = (None, di', w')"
    and rd: "OpReadlink latestName \<in> set (syscalls w')"
    and ln: "latestName \<notin> symlink_fails w \<longrightarrow> links w' latestName = Some (filepath_Base name)"
    using Open_symlink_step [where nameT = "nameTmpl fm" and li = li and lt = lt and w = w,
        OF assms(1) _ _ _ assms(3)] assms(2)
    by fastforce
  obtain ws where "syscalls (snd (WriteLine fm li w)) = syscalls w' @ ws"
    using WriteLine_extends_Open [of fm li w] op by auto
  with rd show "OpReadlink latestName \<in> set (syscalls (snd (WriteLine fm li w)))"
    by simp
  show "links (snd (WriteLine fm li w)) latestName = Some (filepath_Base name)"
    if "latestName \<notin> symlink_fails w"
    using that ln WriteLine_after_Open(1) [OF op] by simp
qed

theorem link_step_only_after_open_witness:
  "OpReadlink ''logs/dev1/dev1.log'' \<in> set (syscalls (snd (WriteLine example_fm example_li example_world)))
   \<and> links (snd (WriteLine example_fm example_li example_world)) ''logs/dev1/dev1.log''
       = Some ''dev1.20220102.log''
   \<and> links (snd (WriteLine example_fm1 example_li example_world1)) = links example_world1
   \<and> klog (snd (WriteLine example_fm1 example_li example_world1)) = klog example_world1
   \<and> (\<exists>pieces rest. recordTmpl example_fm1 example_li = map Some pieces @ rest
         \<and> syscalls (snd (WriteLine example_fm1 example_li example_world1)) =
             syscalls example_world1 @ map (OpWrite ''logs/dev1/dev1.20220102.log'') pieces
               @ [OpWrite ''logs/dev1/dev1.20220102.log'' [CHR 0x0A]])"
proof -
  have slow: "\<not> (fname (getDevice example_fm example_li example_world) = ''logs/dev1/dev1.20220102.log''
                 \<and> fd (getDevice example_fm example_li example_world) \<noteq> None)
              \<and> filepath_Dir ''logs/dev1/dev1.20220102.log'' \<notin> mkdir_fails example_world
              \<and> ''logs/dev1/dev1.20220102.log'' \<notin> open_fails example_world"
    by (simp add: getDevice_def example_fm_def example_world_def example_li_def)
  have fast: "fname (getDevice example_fm1 example_li example_world1) = ''logs/dev1/dev1.20220102.log''
              \<and> fd (getDevice example_fm1 example_li example_world1) = Some ''logs/dev1/dev1.20220102.log''"
    by (simp add: getDevice_def first_write example_names)
  have nofail: "''logs/dev1/dev1.log'' \<notin> symlink_fails example_world"
    by (simp add: example_world_def)
  have base: "filepath_Base ''logs/dev1/dev1.20220102.log'' = ''dev1.20220102.log''"
    by (simp add: filepath_Base_def)
  have n0: "nameTmpl example_fm example_li = Some ''logs/dev1/dev1.20220102.log''"
    and l0: "latestNameTmpl example_fm = Some (latestFileNameTmpl ''logs'')"
    by (simp_all add: example_fm_def example_names)
  have n1: "nameTmpl example_fm1 example_li = Some ''logs/dev1/dev1.20220102.log''"
    and l1: "latestNameTmpl example_fm1 = Some (latestFileNameTmpl ''logs'')"
    by (simp_all add: first_write example_names)
  have a: "OpReadlink ''logs/dev1/dev1.log'' \<in> set (syscalls (snd (WriteLine example_fm example_li example_world)))
     \<and> links (snd (WriteLine example_fm example_li example_world)) ''logs/dev1/dev1.log''
         = Some ''dev1.20220102.log''"
    using link_step_only_after_open [of example_fm example_li _ _ _ example_world,
            OF n0 l0 example_names(2)] slow nofail
    by (simp add: base)
  have b: "links (snd (WriteLine example_fm1 example_li example_world1)) = links example_world1
     \<and> klog (snd (WriteLine example_fm1 example_li example_world1)) = klog example_world1
     \<and> (\<exists>pieces rest. recordTmpl example_fm1 example_li = map Some pieces @ rest
         \<and> syscalls (snd (WriteLine example_fm1 example_li example_world1)) =
             syscalls example_world1 @ map (OpWrite ''logs/dev1/dev1.20220102.log'') pieces
               @ [OpWrite ''logs/dev1/dev1.20220102.log'' [CHR 0x0A]])"
    using link_step_only_after_open [of example_fm1 example_li _ _ _ example_world1
            "''logs/dev1/dev1.20220102.log''", OF n1 l1 example_names(2)] fast
    by blast
  show ?thesis
    using a b by blast
qed

section \<open>A failing directory creation or file open\<close>

text \<open>
  C2 as stated fails. After the first write of the examples the handle of \<open>dev1\<close> is
  open on the file of 2 January. The event of the next day arrives and the new file
  cannot be opened: the line is dropped, but the name on the handle is now that of the
  file of 3 January.
\<close>

theorem failed_open_changes_name:
  "map_option fname (devices example_fm1 ''dev1'') = Some ''logs/dev1/dev1.20220102.log''
   \<and> map_option fname
        (devices (fst (WriteLine example_fm1 example_li2
           (example_world1\<lparr>open_fails := {''logs/dev1/dev1.20220103.log''}\<rparr>))) ''dev1'')
       = Some ''logs/dev1/dev1.20220103.log''
   \<and> map_option fd
        (devices (fst (WriteLine example_fm1 example_li2
           (example_world1\<lparr>open_fails := {''logs/dev1/dev1.20220103.log''}\<rparr>))) ''dev1'')
       = Some None"
  by (simp add: first_write WriteLine_def getDevice_def Open_def Close_def execTmpl_def
        os_MkdirAll_def os_OpenFile_def sys_def klogf_def fileNameTmpl_logs deviceLogName_def
        example_li2_def example_li_def Let_def)

text \<open>
  C2, amended: if directory creation or file open fails during \<^verbatim>\<open>WriteLine\<close> for a
  device, the line is dropped, and the handle is left with the new file name and a nil
  file. It is the nil file that makes the next write for that device start again with
  the directory creation, whatever its file name.
\<close>

theorem failed_open_leaves_handle_closed:
  assumes "nameTmpl fm li = Some name"
    and "\<not> (fname (getDevice fm li w) = name \<and> fd (getDevice fm li w) \<noteq> None)"
    and "filepath_Dir name \<in> mkdir_fails w \<or> name \<in> open_fails w"
  shows "files (snd (WriteLine fm li w)) = files w
       \<and> (\<exists>di'. devices (fst (WriteLine fm li w)) (DeviceIDSafe li) = Some di'
                \<and> fd di' = None \<and> fname di' = name)
       \<and> (\<forall>li2 name2 w2.
            DeviceIDSafe li2 = DeviceIDSafe li \<and> nameTmpl fm li2 = Some name2 \<longrightarrow>
            (\<exists>ws. syscalls (snd (WriteLine (fst (WriteLine fm li w)) li2 w2)) =
                   syscalls w2 @ OpMkdirAll (filepath_Dir name2) # ws))"
proof -
  obtain err di' w' where
    wl: "WriteLine fm li w =
           (fm\<lparr>devices := (devices fm)(DeviceIDSafe li \<mapsto> di')\<rparr>,
            klogf (Error_OpenLogFile err) w')"
    and di': "fd di' = None" "fname di' = name"
    and w': "files w' = files w"
    using WriteLine_open_failure [OF assms] by blast
  let ?fm' = "fm\<lparr>devices := (devices fm)(DeviceIDSafe li \<mapsto> di')\<rparr>"
  have "\<exists>ws. syscalls (snd (WriteLine ?fm' li2 w2)) =
               syscalls w2 @ OpMkdirAll (filepath_Dir name2) # ws"
    if "DeviceIDSafe li2 = DeviceIDSafe li" "nameTmpl fm li2 = Some name2" for li2 name2 w2
  proof -
    have gd: "getDevice ?fm' li2 w2 = di'"
      using that(1) by (simp add: getDevice_def)
    have nm: "nameTmpl ?fm' li2 = Some name2"
      using that(2) by simp
    obtain ws1 where
      "syscalls (snd (snd (Open (nameTmpl ?fm') (latestNameTmpl ?fm') li2 di' w2))) =
         syscalls w2 @ OpMkdirAll (filepath_Dir name2) # ws1"
      using Open_closed_starts_with_mkdir [where nameT = "nameTmpl ?fm'" and li = li2, OF nm di'(1)]
      by blast
    moreover obtain ws2 where
      "syscalls (snd (WriteLine ?fm' li2 w2)) =
         syscalls (snd (snd (Open (nameTmpl ?fm') (latestNameTmpl ?fm') li2
           (getDevice ?fm' li2 w2) w2))) @ ws2"
      using WriteLine_extends_Open by blast
    ultimately show ?thesis
      by (simp add: gd)
  qed
  then show ?thesis
    using di' w' by (simp add: wl klogf_def)
qed

theorem failed_open_leaves_handle_closed_witness:
  "files (snd (WriteLine example_fm1 example_li2
      (example_world1\<lparr>open_fails := {''logs/dev1/dev1.20220103.log''}\<rparr>)))
     = files (example_world1\<lparr>open_fails := {''logs/dev1/dev1.20220103.log''}\<rparr>)
   \<and> (\<exists>ws. syscalls (snd (WriteLine
          (fst (WriteLine example_fm1 example_li2
             (example_world1\<lparr>open_fails := {''logs/dev1/dev1.20220103.log''}\<rparr>)))
          example_li2 example_world1)) =
        syscalls example_world1 @ OpMkdirAll ''logs/dev1'' # ws)"
proof -
  have n: "nameTmpl example_fm1 example_li2 = Some ''logs/dev1/dev1.20220103.log''"
    by (simp add: first_write fileNameTmpl_logs deviceLogName_def example_li2_def example_li_def)
  have s: "\<not> (fname (getDevice example_fm1 example_li2
                (example_world1\<lparr>open_fails := {''logs/dev1/dev1.20220103.log''}\<rparr>))
              = ''logs/dev1/dev1.20220103.log''
            \<and> fd (getDevice example_fm1 example_li2
                (example_world1\<lparr>open_fails := {''logs/dev1/dev1.20220103.log''}\<rparr>)) \<noteq> None)"
    by (simp add: getDevice_def first_write example_li2_def example_li_def)
  have f: "filepath_Dir ''logs/dev1/dev1.20220103.log''
             \<in> mkdir_fails (example_world1\<lparr>open_fails := {''logs/dev1/dev1.20220103.log''}\<rparr>)
           \<or> ''logs/dev1/dev1.20220103.log''
             \<in> open_fails (example_world1\<lparr>open_fails := {''logs/dev1/dev1.20220103.log''}\<rparr>)"
    by simp
  have d: "filepath_Dir ''logs/dev1/dev1.20220103.log'' = ''logs/dev1''"
    by (simp add: filepath_Dir_def filepath_Clean_def)
  from failed_open_leaves_handle_closed [OF n s f]
  have "files (snd (WriteLine example_fm1 example_li2
      (example_world1\<lparr>open_fails := {''logs/dev1/dev1.20220103.log''}\<rparr>)))
     = files (example_world1\<lparr>open_fails := {''logs/dev1/dev1.20220103.log''}\<rparr>)"
    and "\<exists>ws. syscalls (snd (WriteLine
          (fst (WriteLine example_fm1 example_li2
             (example_world1\<lparr>open_fails := {''logs/dev1/dev1.20220103.log''}\<rparr>)))
          example_li2 example_world1)) =
        syscalls example_world1 @ OpMkdirAll (filepath_Dir ''logs/dev1/dev1.20220103.log'') # ws"
    using n by blast+
  then show ?thesis
    by (simp add: d)
qed

section \<open>Errors and the diagnostic log\<close>

text \<open>
  C10 as stated fails. In a world where the third \<^verbatim>\<open>Write\<close> call fails after three bytes
  (a full disk), the first write of the examples opens the file, writes the first two
  pieces of the record, gets an error from the write of the third, writes the newline and
  logs no error: the file holds a part of the line and there is no diagnostic.
\<close>

theorem write_error_not_logged:
  "filter isErrorf (klog (snd (WriteLine example_fm example_li
      (example_world\<lparr>write_outcomes := [None, None, Some 3]\<rparr>)))) = []
   \<and> fst (File_Write (Some ''logs/dev1/dev1.20220102.log'') ''192.0.2.1:4000''
           (example_world\<lparr>write_outcomes := [Some 3]\<rparr>)) = False
   \<and> files (snd (WriteLine example_fm example_li
      (example_world\<lparr>write_outcomes := [None, None, Some 3]\<rparr>)))
       ''logs/dev1/dev1.20220102.log'' = Some ('' 192'' @ [CHR 0x0A])"
  by (simp add: fsev)

text \<open>
  C10, amended: a failure of the directory creation or of the file open during
  \<^verbatim>\<open>WriteLine\<close> is surfaced in the diagnostic log (the last entry is the error) and only
  that line is dropped. A failure of the write itself is ignored: once \<^verbatim>\<open>Open\<close> has
  succeeded \<^verbatim>\<open>WriteLine\<close> logs nothing, whatever the outcomes of the writes, and it
  still makes the write of the newline after the writes of the record.
\<close>

theorem rotation_errors_logged_write_errors_ignored:
  assumes "nameTmpl fm li = Some name"
  shows "(\<not> (fname (getDevice fm li w) = name \<and> fd (getDevice fm li w) \<noteq> None)
            \<and> (filepath_Dir name \<in> mkdir_fails w \<or> name \<in> open_fails w) \<longrightarrow>
            (\<exists>err es. klog (snd (WriteLine fm li w)) = es @ [Error_OpenLogFile err])
          \<and> files (snd (WriteLine fm li w)) = files w)
       \<and> (\<forall>di1 w1 f.
            Open (nameTmpl fm) (latestNameTmpl fm) li (getDevice fm li w) w = (None, di1, w1) \<longrightarrow>
            klog (snd (WriteLine fm li w)) = klog w1
          \<and> (fd di1 = Some f \<longrightarrow>
               (\<exists>pieces rest. recordTmpl fm li = map Some pieces @ rest
                  \<and> syscalls (snd (WriteLine fm li w)) =
                      syscalls w1 @ map (OpWrite f) pieces @ [OpWrite f [CHR 0x0A]])))"
proof (intro conjI impI allI)
  assume a: "\<not> (fname (getDevice fm li w) = name \<and> fd (getDevice fm li w) \<noteq> None)
              \<and> (filepath_Dir name \<in> mkdir_fails w \<or> name \<in> open_fails w)"
  then obtain err di' w' where
    wl: "WriteLine fm li w =
           (fm\<lparr>devices := (devices fm)(DeviceIDSafe li \<mapsto> di')\<rparr>,
            klogf (Error_OpenLogFile err) w')"
    and w': "files w' = files w"
    using WriteLine_open_failure [OF assms, of w] by blast
  show "\<exists>err es. klog (snd (WriteLine fm li w)) = es @ [Error_OpenLogFile err]"
    by (simp add: wl klogf_def)
  show "files (snd (WriteLine fm li w)) = files w"
    by (simp add: wl klogf_def w')
next
  fix di1 w1 f
  assume op: "Open (nameTmpl fm) (latestNameTmpl fm) li (getDevice fm li w) w = (None, di1, w1)"
  show "klog (snd (WriteLine fm li w)) = klog w1"
    by (rule WriteLine_after_Open(2) [OF op])
  show "\<exists>pieces rest. recordTmpl fm li = map Some pieces @ rest
          \<and> syscalls (snd (WriteLine fm li w)) =
              syscalls w1 @ map (OpWrite f) pieces @ [OpWrite f [CHR 0x0A]]"
    if "fd di1 = Some f"
    using WriteLine_writes [OF op that] .
qed

theorem rotation_errors_logged_write_errors_ignored_witness:
  "(\<exists>err es. klog (snd (WriteLine example_fm1 example_li2
       (example_world1\<lparr>open_fails := {''logs/dev1/dev1.20220103.log''}\<rparr>)))
        = es @ [Error_OpenLogFile err])
   \<and> files (snd (WriteLine example_fm1 example_li2
       (example_world1\<lparr>open_fails := {''logs/dev1/dev1.20220103.log''}\<rparr>)))
       = files example_world1
   \<and> klog (snd (WriteLine example_fm1 example_li
        (example_world1\<lparr>write_outcomes := [Some 0]\<rparr>)))
       = klog example_world1
   \<and> (\<exists>pieces rest. recordTmpl example_fm1 example_li = map Some pieces @ rest
         \<and> syscalls (snd (WriteLine example_fm1 example_li
                (example_world1\<lparr>write_outcomes := [Some 0]\<rparr>))) =
             syscalls example_world1 @ map (OpWrite ''logs/dev1/dev1.20220102.log'') pieces
               @ [OpWrite ''logs/dev1/dev1.20220102.log'' [CHR 0x0A]])"
proof -
  let ?w2 = "example_world1\<lparr>open_fails := {''logs/dev1/dev1.20220103.log''}\<rparr>"
  let ?w3 = "example_world1\<lparr>write_outcomes := [Some 0]\<rparr>"
  have n2: "nameTmpl example_fm1 example_li2 = Some ''logs/dev1/dev1.20220103.log''"
    by (simp add: first_write fileNameTmpl_logs deviceLogName_def example_li2_def example_li_def)
  have s2: "\<not> (fname (getDevice example_fm1 example_li2 ?w2) = ''logs/dev1/dev1.20220103.log''
              \<and> fd (getDevice example_fm1 example_li2 ?w2) \<noteq> None)
            \<and> (filepath_Dir ''logs/dev1/dev1.20220103.log'' \<in> mkdir_fails ?w2
               \<or> ''logs/dev1/dev1.20220103.log'' \<in> open_fails ?w2)"
    by (simp add: getDevice_def first_write example_li2_def example_li_def)
  have n3: "nameTmpl example_fm1 example_li = Some ''logs/dev1/dev1.20220102.log''"
    by (simp add: first_write example_names)
  have gd: "getDevice example_fm1 example_li ?w3 =
              \<lparr>fd = Some ''logs/dev1/dev1.20220102.log'',
               fname = ''logs/dev1/dev1.20220102.log'', lastUsed = example_time\<rparr>"
    by (simp add: getDevice_def first_write example_names)
  have op: "Open (nameTmpl example_fm1) (latestNameTmpl example_fm1) example_li
              (getDevice example_fm1 example_li ?w3) ?w3
            = (None, getDevice example_fm1 example_li ?w3, ?w3)"
    by (rule Open_fast_path [where nameT = "nameTmpl example_fm1" and li = example_li, OF n3])
       (simp_all add: gd)
  have a: "(\<exists>err es. klog (snd (WriteLine example_fm1 example_li2 ?w2)) = es @ [Error_OpenLogFile err])
           \<and> files (snd (WriteLine example_fm1 example_li2 ?w2)) = files ?w2"
    using rotation_errors_logged_write_errors_ignored [OF n2, of ?w2] s2 by blast
  have b: "klog (snd (WriteLine example_fm1 example_li ?w3)) = klog ?w3
           \<and> (\<exists>pieces rest. recordTmpl example_fm1 example_li = map Some pieces @ rest
                 \<and> syscalls (snd (WriteLine example_fm1 example_li ?w3)) =
                     syscalls ?w3 @ map (OpWrite ''logs/dev1/dev1.20220102.log'') pieces
                       @ [OpWrite ''logs/dev1/dev1.20220102.log'' [CHR 0x0A]])"
    using rotation_errors_logged_write_errors_ignored [OF n3, of ?w3] op gd by auto
  show ?thesis
    using a b by simp
qed

section \<open>The records of a packet\<close>

lemma packetLoop_fold:
  "packetLoop e stdoutT ts src buf st = foldl (lineStep e stdoutT ts src) st (packetLines buf)"
proof (induction e stdoutT ts src buf st rule: packetLoop.induct)
  case (1 e stdoutT ts src buf st)
  show ?case
  proof (cases "10 < length buf")
    case True
    then show ?thesis
      using "1.IH" by (simp add: packetLoop.simps [of e stdoutT ts src buf] packetLines.simps [of buf])
  next
    case False
    then show ?thesis
      by (simp add: packetLoop.simps [of e stdoutT ts src buf] packetLines.simps [of buf])
  qed
qed

lemma ReadBytes_record:
  assumes "d \<notin> set r"
  shows "ReadBytes (r @ d # rest) d = (r @ [d], rest)"
proof -
  have "takeWhile (\<lambda>c. c \<noteq> d) (r @ d # rest) = r"
    using assms by (rule takeWhile_until)
  then show ?thesis
    by (simp add: ReadBytes_def Let_def)
qed

lemma TrimRight_newline:
  "TrimRight (r @ [CHR 0x0A]) [CHR 0x0D, CHR 0x0A] = TrimRight r [CHR 0x0D, CHR 0x0A]"
  by (simp add: TrimRight_def)

lemma packetLines_short: "length buf \<le> 10 \<Longrightarrow> packetLines buf = []"
  by (simp add: packetLines.simps [of buf])

lemma packetLines_record:
  assumes "CHR 0x0A \<notin> set r" "10 < length (r @ [CHR 0x0A] @ rest)"
  shows "packetLines (r @ [CHR 0x0A] @ rest) = TrimRight r [CHR 0x0D, CHR 0x0A] # packetLines rest"
  using assms(2) ReadBytes_record [OF assms(1), of rest]
  by (simp add: packetLines.simps [of "r @ CHR 0x0A # rest"] TrimRight_newline)

lemma lineStep_parse_failure:
  assumes "fst (parseLine e ts src line) = Inl err"
  shows "lineStep e stdoutT ts src (fm, w) line = (fm, klogf (Error_InvalidLogMessage line err) w)"
proof -
  obtain b where p: "parseLine e ts src line = (Inl err, b)"
    using assms by (cases "parseLine e ts src line") simp
  then have "b = line" by (rule parseLine_Inl)
  with p show ?thesis
    by (simp add: lineStep_def processLine_def)
qed

lemma parse_bad: "parseLine e ts src ''bad'' = (Inl MissingMsgDelimiter, ''bad'')"
  by (simp add: parseLine_def bytes_Cut_def)

text \<open>
  C9 as stated fails. The packet holds two newline-terminated records, the valid record
  of the examples and \<open>bad\<close>. With the console sink on, the first is parsed and printed.
  The second is never passed to \<^verbatim>\<open>processLine\<close>: four bytes are left, the loop ends, and
  the diagnostic that parsing \<open>bad\<close> gives is not logged.
\<close>

theorem short_tail_not_processed:
  "packetLines (''dev1 42 12.5 3 2|hello world'' @ [CHR 0x0A] @ ''bad'' @ [CHR 0x0A])
     = [''dev1 42 12.5 3 2|hello world'']
   \<and> klog (snd (handlePacket example_env (Some defaultFileFormat) ''192.0.2.1:4000''
        (''dev1 42 12.5 3 2|hello world'' @ [CHR 0x0A] @ ''bad'' @ [CHR 0x0A])
        (None, example_world))) = []
   \<and> stdout (snd (handlePacket example_env (Some defaultFileFormat) ''192.0.2.1:4000''
        (''dev1 42 12.5 3 2|hello world'' @ [CHR 0x0A] @ ''bad'' @ [CHR 0x0A])
        (None, example_world))) = '' 192.0.2.1:4000 I hello world'' @ [CHR 0x0A]
   \<and> klog (snd (lineStep example_env (Some defaultFileFormat) example_time ''192.0.2.1:4000''
        (None, example_world) ''bad'')) = [Error_InvalidLogMessage ''bad'' MissingMsgDelimiter]"
proof -
  have short: "packetLines (''bad'' @ [CHR 0x0A]) = []"
    by (rule packetLines_short) simp
  have "packetLines (''dev1 42 12.5 3 2|hello world'' @ [CHR 0x0A] @ ''bad'' @ [CHR 0x0A])
          = TrimRight ''dev1 42 12.5 3 2|hello world'' [CHR 0x0D, CHR 0x0A]
              # packetLines (''bad'' @ [CHR 0x0A])"
    by (rule packetLines_record) simp_all
  then have lines: "packetLines (''dev1 42 12.5 3 2|hello world'' @ [CHR 0x0A] @ ''bad'' @ [CHR 0x0A])
          = [''dev1 42 12.5 3 2|hello world'']"
    using short by (simp add: TrimRight_def)
  have p: "parseLine example_env example_time ''192.0.2.1:4000'' ''dev1 42 12.5 3 2|hello world''
             = (Inr example_li, ''dev1 42 12.5 3 2|hello world'')"
    by (simp add: ev example_li_def split del: if_split)
  have step: "lineStep example_env (Some defaultFileFormat) example_time ''192.0.2.1:4000''
                (None, example_world) ''dev1 42 12.5 3 2|hello world''
              = (None, example_world\<lparr>stdout := '' 192.0.2.1:4000 I hello world'' @ [CHR 0x0A]\<rparr>)"
    by (simp add: lineStep_def processLine_def p fsev)
  have tk: "take 1500 (''dev1 42 12.5 3 2|hello world'' @ [CHR 0x0A] @ ''bad'' @ [CHR 0x0A])
              = ''dev1 42 12.5 3 2|hello world'' @ [CHR 0x0A] @ ''bad'' @ [CHR 0x0A]"
    by simp
  have nw: "now example_world = example_time"
    by (simp add: example_world_def)
  have hp: "handlePacket example_env (Some defaultFileFormat) ''192.0.2.1:4000''
        (''dev1 42 12.5 3 2|hello world'' @ [CHR 0x0A] @ ''bad'' @ [CHR 0x0A])
        (None, example_world)
      = (None, example_world\<lparr>stdout := '' 192.0.2.1:4000 I hello world'' @ [CHR 0x0A]\<rparr>)"
    unfolding handlePacket_def tk packetLoop_fold lines
    by (simp add: nw step)
  have bad: "lineStep example_env (Some defaultFileFormat) example_time ''192.0.2.1:4000''
        (None, example_world) ''bad''
      = (None, klogf (Error_InvalidLogMessage ''bad'' MissingMsgDelimiter) example_world)"
    by (rule lineStep_parse_failure) (simp add: parse_bad)
  show ?thesis
    unfolding hp bad lines
    by (simp add: klogf_def example_world_def)
qed

lemma lineStep_parse_success:
  assumes "fst (parseLine e ts src line) = Inr li"
  shows "lineStep e stdoutT ts src (fm, w) line =
           (let printed = (case stdoutT of
                             None \<Rightarrow> w
                           | Some t \<Rightarrow>
                               snd (Stdout_Write [CHR 0x0A] (snd (Execute t Stdout_Write li w))))
            in case fm of
                 None \<Rightarrow> (None, printed)
               | Some m \<Rightarrow> (Some (fst (WriteLine m li printed)), snd (WriteLine m li printed)))"
proof -
  obtain b where p: "parseLine e ts src line = (Inr li, b)"
    using assms by (cases "parseLine e ts src line") simp
  show ?thesis
    by (simp add: lineStep_def processLine_def p Let_def split: option.splits prod.splits)
qed

text \<open>
  C9, amended: for every received packet (its first 1500 bytes), records are read while
  more than 10 bytes are left unread. Each newline-terminated record that begins there
  is CR/LF-trimmed and then processed, in order and independently: the lines processed
  depend on the bytes of the packet alone; a record that fails to parse only adds a
  diagnostic, leaving the file manager and the rest of the world as they were for the
  records after it; a record that parses is printed on the standard output when a
  console format is configured, record and newline, and then passed to \<^verbatim>\<open>WriteLine\<close>
  when there is a file manager. What is left when at most 10 bytes remain is not
  processed.
\<close>

theorem packet_records_processed:
  "handlePacket e stdoutT src data st =
     foldl (lineStep e stdoutT (now (snd st)) src) st (packetLines (take 1500 data))
   \<and> (length buf \<le> 10 \<longrightarrow> packetLines buf = [])
   \<and> (CHR 0x0A \<notin> set r \<and> 10 < length (r @ [CHR 0x0A] @ rest) \<longrightarrow>
        packetLines (r @ [CHR 0x0A] @ rest) = TrimRight r [CHR 0x0D, CHR 0x0A] # packetLines rest)
   \<and> (fst (parseLine e ts src line) = Inl err \<longrightarrow>
        lineStep e stdoutT ts src (fm, w) line = (fm, klogf (Error_InvalidLogMessage line err) w))
   \<and> (fst (parseLine e ts src line) = Inr li \<longrightarrow>
        lineStep e stdoutT ts src (fm, w) line =
          (let printed = (case stdoutT of
                            None \<Rightarrow> w
                          | Some t \<Rightarrow>
                              snd (Stdout_Write [CHR 0x0A] (snd (Execute t Stdout_Write li w))))
           in case fm of
                None \<Rightarrow> (None, printed)
              | Some m \<Rightarrow> (Some (fst (WriteLine m li printed)), snd (WriteLine m li printed))))"
proof (intro conjI impI)
  show "handlePacket e stdoutT src data st =
          foldl (lineStep e stdoutT (now (snd st)) src) st (packetLines (take 1500 data))"
    unfolding handlePacket_def by (rule packetLoop_fold)
next
  assume "length buf \<le> 10"
  then show "packetLines buf = []"
    by (rule packetLines_short)
next
  assume "CHR 0x0A \<notin> set r \<and> 10 < length (r @ [CHR 0x0A] @ rest)"
  then show "packetLines (r @ [CHR 0x0A] @ rest)
               = TrimRight r [CHR 0x0D, CHR 0x0A] # packetLines rest"
    by (intro packetLines_record) simp_all
next
  assume "fst (parseLine e ts src line) = Inl err"
  then show "lineStep e stdoutT ts src (fm, w) line
               = (fm, klogf (Error_InvalidLogMessage line err) w)"
    by (rule lineStep_parse_failure)
next
  assume "fst (parseLine e ts src line) = Inr li"
  then show "lineStep e stdoutT ts src (fm, w) line =
          (let printed = (case stdoutT of
                            None \<Rightarrow> w
                          | Some t \<Rightarrow>
                              snd (Stdout_Write [CHR 0x0A] (snd (Execute t Stdout_Write li w))))
           in case fm of
                None \<Rightarrow> (None, printed)
              | Some m \<Rightarrow> (Some (fst (WriteLine m li printed)), snd (WriteLine m li printed)))"
    by (rule lineStep_parse_success)
qed

text \<open>
  A packet with the record \<open>bad\<close> and the valid record of the examples, the console sink
  and the file manager on: the first record is reported, the second is printed and
  written to the file of the device.
\<close>

theorem packet_records_processed_witness:
  "packetLines (''bad'' @ [CHR 0x0A]) = []
   \<and> packetLines (''bad'' @ [CHR 0x0A] @ ''dev1 42 12.5 3 2|hello world'' @ [CHR 0x0A])
       = [''bad'', ''dev1 42 12.5 3 2|hello world'']
   \<and> klog (snd (handlePacket example_env (Some defaultFileFormat) ''192.0.2.1:4000''
        (''bad'' @ [CHR 0x0A] @ ''dev1 42 12.5 3 2|hello world'' @ [CHR 0x0A])
        (Some example_fm, example_world)))
       = [Error_InvalidLogMessage ''bad'' MissingMsgDelimiter,
          Info_Opened ''logs/dev1/dev1.20220102.log'',
          Info_Symlinked ''logs/dev1/dev1.log'' ''dev1.20220102.log'']
   \<and> stdout (snd (handlePacket example_env (Some defaultFileFormat) ''192.0.2.1:4000''
        (''bad'' @ [CHR 0x0A] @ ''dev1 42 12.5 3 2|hello world'' @ [CHR 0x0A])
        (Some example_fm, example_world)))
       = '' 192.0.2.1:4000 I hello world'' @ [CHR 0x0A]
   \<and> files (snd (handlePacket example_env (Some defaultFileFormat) ''192.0.2.1:4000''
        (''bad'' @ [CHR 0x0A] @ ''dev1 42 12.5 3 2|hello world'' @ [CHR 0x0A])
        (Some example_fm, example_world))) ''logs/dev1/dev1.20220102.log''
       = Some ('' 192.0.2.1:4000 I hello world'' @ [CHR 0x0A])"
proof -
  note t = packet_records_processed
  let ?w0 = "klogf (Error_InvalidLogMessage ''bad'' MissingMsgDelimiter) example_world"
  let ?printed = "snd (Stdout_Write [CHR 0x0A]
                    (snd (Execute defaultFileFormat Stdout_Write example_li ?w0)))"
  have a: "packetLines (''bad'' @ [CHR 0x0A]) = []"
    using t [where buf = "''bad'' @ [CHR 0x0A]"] by simp
  have b1: "packetLines (''dev1 42 12.5 3 2|hello world'' @ [CHR 0x0A] @ [])
              = TrimRight ''dev1 42 12.5 3 2|hello world'' [CHR 0x0D, CHR 0x0A] # packetLines []"
    using t [where r = "''dev1 42 12.5 3 2|hello world''" and rest = "[]"] by simp
  have b2: "packetLines (''bad'' @ [CHR 0x0A] @ ''dev1 42 12.5 3 2|hello world'' @ [CHR 0x0A])
              = TrimRight ''bad'' [CHR 0x0D, CHR 0x0A]
                  # packetLines (''dev1 42 12.5 3 2|hello world'' @ [CHR 0x0A])"
    using t [where r = "''bad''" and rest = "''dev1 42 12.5 3 2|hello world'' @ [CHR 0x0A]"]
    by simp
  have e: "packetLines [] = []"
    using t [where buf = "[]"] by simp
  have b: "packetLines (''bad'' @ [CHR 0x0A] @ ''dev1 42 12.5 3 2|hello world'' @ [CHR 0x0A])
             = [''bad'', ''dev1 42 12.5 3 2|hello world'']"
    using b1 b2 e by (simp add: TrimRight_def)
  have c: "lineStep example_env (Some defaultFileFormat) example_time ''192.0.2.1:4000''
             (Some example_fm, example_world) ''bad''
       = (Some example_fm, ?w0)"
    using t [where e = example_env and ts = example_time and src = "''192.0.2.1:4000''"
               and line = "''bad''" and err = MissingMsgDelimiter
               and stdoutT = "Some defaultFileFormat"
               and fm = "Some example_fm" and w = example_world]
    by (simp add: parse_bad)
  have p: "parseLine example_env example_time ''192.0.2.1:4000'' ''dev1 42 12.5 3 2|hello world''
             = (Inr example_li, ''dev1 42 12.5 3 2|hello world'')"
    by (simp add: ev example_li_def split del: if_split)
  have s: "lineStep example_env (Some defaultFileFormat) example_time ''192.0.2.1:4000''
             (Some example_fm, ?w0) ''dev1 42 12.5 3 2|hello world''
       = (Some (fst (WriteLine example_fm example_li ?printed)),
          snd (WriteLine example_fm example_li ?printed))"
    using t [where e = example_env and ts = example_time and src = "''192.0.2.1:4000''"
               and line = "''dev1 42 12.5 3 2|hello world''" and li = example_li
               and stdoutT = "Some defaultFileFormat"
               and fm = "Some example_fm" and w = ?w0]
    by (simp add: p Let_def)
  have d: "handlePacket example_env (Some defaultFileFormat) ''192.0.2.1:4000''
        (''bad'' @ [CHR 0x0A] @ ''dev1 42 12.5 3 2|hello world'' @ [CHR 0x0A])
        (Some example_fm, example_world)
       = foldl (lineStep example_env (Some defaultFileFormat) (now example_world) ''192.0.2.1:4000'')
           (Some example_fm, example_world)
           (packetLines (take 1500
              (''bad'' @ [CHR 0x0A] @ ''dev1 42 12.5 3 2|hello world'' @ [CHR 0x0A])))"
    using t [where e = example_env and stdoutT = "Some defaultFileFormat"
               and src = "''192.0.2.1:4000''"
               and data = "''bad'' @ [CHR 0x0A] @ ''dev1 42 12.5 3 2|hello world'' @ [CHR 0x0A]"
               and st = "(Some example_fm, example_world)"]
    by simp
  have tk: "take 1500 (''bad'' @ [CHR 0x0A] @ ''dev1 42 12.5 3 2|hello world'' @ [CHR 0x0A])
              = ''bad'' @ [CHR 0x0A] @ ''dev1 42 12.5 3 2|hello world'' @ [CHR 0x0A]"
    by simp
  have nw: "now example_world = example_time"
    by (simp add: example_world_def)
  have hp: "handlePacket example_env (Some defaultFileFormat) ''192.0.2.1:4000''
        (''bad'' @ [CHR 0x0A] @ ''dev1 42 12.5 3 2|hello world'' @ [CHR 0x0A])
        (Some example_fm, example_world)
       = (Some (fst (WriteLine example_fm example_li ?printed)),
          snd (WriteLine example_fm example_li ?printed))"
    unfolding d tk b nw using c s by simp
  have w: "klog (snd (WriteLine example_fm example_li ?printed))
             = [Error_InvalidLogMessage ''bad'' MissingMsgDelimiter,
                Info_Opened ''logs/dev1/dev1.20220102.log'',
                Info_Symlinked ''logs/dev1/dev1.log'' ''dev1.20220102.log'']"
    "stdout (snd (WriteLine example_fm example_li ?printed))
       = '' 192.0.2.1:4000 I hello world'' @ [CHR 0x0A]"
    "files (snd (WriteLine example_fm example_li ?printed)) ''logs/dev1/dev1.20220102.log''
       = Some ('' 192.0.2.1:4000 I hello world'' @ [CHR 0x0A])"
    by (simp_all add: fsev)
  show ?thesis
    unfolding hp using a b w by simp
qed

section \<open>The sanitized device id as a path component\<close>

text \<open>The date string is long enough for the slices \<^verbatim>\<open>ds[:4]\<close>, \<^verbatim>\<open>ds[4:6]\<close>, \<^verbatim>\<open>ds[6:8]\<close>.\<close>

lemma Format_20060102_length: "8 \<le> length (Format_20060102 t)"
  by (simp add: Format_20060102_def pad_def)

text \<open>
  Every byte of \<^verbatim>\<open>DeviceIDSafe\<close> is in the allow-set, so none is a path separator, a
  backslash or a NUL.
\<close>

lemma safeChars_not_separator:
  "safeChars c \<Longrightarrow> c \<noteq> CHR ''/'' \<and> c \<noteq> CHR 0x5C \<and> c \<noteq> CHR 0x00"
  by (auto simp: safeChars_def byte_def)

lemma deviceIdSafe_allowed:
  assumes "parseLine e ts src line = (Inr li, b)" "c \<in> set (DeviceIDSafe li)"
  shows "safeChars c"
proof -
  have "DeviceIDSafe li = map sanitize (take (idLen line) line)"
    using parseLine_Inr [OF assms(1)] by simp
  with assms(2) show ?thesis
    by (auto simp: sanitize_safe)
qed

lemma deviceIdSafe_no_separator:
  assumes "parseLine e ts src line = (Inr li, b)"
  shows "CHR ''/'' \<notin> set (DeviceIDSafe li)"
  using deviceIdSafe_allowed [OF assms] safeChars_not_separator by blast

text \<open>
  C3: the device id \<open>..\<close> has two bytes, both in the allow-set, so it is accepted and
  \<^verbatim>\<open>DeviceIDSafe\<close> is \<open>..\<close> too. The file name made from it is
  \<open>logs/../...20220102.log\<close>: the directory that \<^verbatim>\<open>WriteLine\<close> creates is the parent of the
  log root, and the file it opens and writes lies there, outside \<open>logs\<close>.
\<close>

theorem dotdot_device_id_leaves_log_root:
  "parseLine example_env example_time ''192.0.2.1:4000'' ''.. 42 12.5 3 2|hello world''
     = (Inr (example_li\<lparr>DeviceID := ''..'', DeviceIDSafe := ''..''\<rparr>),
        ''.. 42 12.5 3 2|hello world'')
   \<and> fileNameTmpl ''logs'' (example_li\<lparr>DeviceID := ''..'', DeviceIDSafe := ''..''\<rparr>)
       = Some ''logs/../...20220102.log''
   \<and> filepath_Clean ''logs/../...20220102.log'' = ''...20220102.log''
   \<and> take 2 (syscalls (snd (WriteLine example_fm
         (example_li\<lparr>DeviceID := ''..'', DeviceIDSafe := ''..''\<rparr>) example_world)))
       = [OpMkdirAll ''.'', OpOpenFile ''logs/../...20220102.log'']
   \<and> files (snd (WriteLine example_fm
         (example_li\<lparr>DeviceID := ''..'', DeviceIDSafe := ''..''\<rparr>) example_world))
         ''logs/../...20220102.log''
       = Some ('' 192.0.2.1:4000 I hello world'' @ [CHR 0x0A])"
proof -
  have "parseLine example_env example_time ''192.0.2.1:4000'' ''.. 42 12.5 3 2|hello world''
     = (Inr (example_li\<lparr>DeviceID := ''..'', DeviceIDSafe := ''..''\<rparr>),
        ''.. 42 12.5 3 2|hello world'')"
    by (simp add: ev example_li_def split del: if_split)
  moreover have "fileNameTmpl ''logs'' (example_li\<lparr>DeviceID := ''..'', DeviceIDSafe := ''..''\<rparr>)
       = Some ''logs/../...20220102.log''"
    by (simp add: fileNameTmpl_logs deviceLogName_def example_li_def)
  moreover have "filepath_Clean ''logs/../...20220102.log'' = ''...20220102.log''"
    by (simp add: filepath_Clean_def)
  moreover have "take 2 (syscalls (snd (WriteLine example_fm
         (example_li\<lparr>DeviceID := ''..'', DeviceIDSafe := ''..''\<rparr>) example_world)))
       = [OpMkdirAll ''.'', OpOpenFile ''logs/../...20220102.log'']"
    by (simp add: fsev)
  moreover have "files (snd (WriteLine example_fm
         (example_li\<lparr>DeviceID := ''..'', DeviceIDSafe := ''..''\<rparr>) example_world))
         ''logs/../...20220102.log''
       = Some ('' 192.0.2.1:4000 I hello world'' @ [CHR 0x0A])"
    by (simp add: fsev)
  ultimately show ?thesis by blast
qed

end
